theory Spec2Isabelle
  imports Complex_Main "HOL-Library.Word"
begin

section \<open>RingBuffer.h: the circular sample buffer\<close>

text \<open>
  \<^verbatim>\<open>template <typename T> class RingBuffer\<close> has the fields \<^verbatim>\<open>int capacity_\<close>,
  \<^verbatim>\<open>uint32_t readPos_\<close>, \<^verbatim>\<open>uint32_t writePos_\<close> and the backing array \<^verbatim>\<open>buffer_\<close> of
  \<^verbatim>\<open>capacity_\<close> elements. The cursors are modelled as \<open>int\<close>: every cursor expression of
  the source is reduced modulo \<^verbatim>\<open>capacity_\<close>, so for \<open>0 < capacity_ < 2^30\<close> all operands
  stay below \<open>3 * capacity_\<close>, no 32-bit operation wraps, and \<open>mod\<close> on the non-negative
  operands is the \<^verbatim>\<open>%\<close> of C++.
\<close>

record 'a RingBuffer =
  capacity :: int
  readPos :: int
  writePos :: int
  buffer :: "'a list"

text \<open>The constructor: cursors at 0, the array zero-filled by \<^verbatim>\<open>memset\<close>.\<close>

definition RingBuffer_new :: "int \<Rightarrow> ('a::zero) RingBuffer" where
  "RingBuffer_new cap =
     \<lparr>capacity = cap, readPos = 0, writePos = 0, buffer = replicate (nat cap) 0\<rparr>"

text \<open>\<^verbatim>\<open>size()\<close>: \<^verbatim>\<open>(writePos_ + capacity_ - readPos_) % capacity_\<close>.\<close>

definition RingBuffer_size :: "'a RingBuffer \<Rightarrow> int" where
  "RingBuffer_size r = (writePos r + capacity r - readPos r) mod capacity r"

text \<open>
  \<^verbatim>\<open>memcpy(&dst[off], src, n * sizeof(T))\<close> with \<open>n = length src\<close>: the elements
  \<open>off ..< off + n\<close> of \<open>dst\<close> are replaced (the source only calls it inside the array).
  \<open>subarray\<close> is the region \<^verbatim>\<open>&xs[off]\<close> of \<open>n\<close> elements that a \<^verbatim>\<open>memcpy\<close> reads.
\<close>

definition memcpy :: "'a list \<Rightarrow> nat \<Rightarrow> 'a list \<Rightarrow> 'a list" where
  "memcpy dst off src = take off dst @ src @ drop (off + length src) dst"

definition subarray :: "'a list \<Rightarrow> nat \<Rightarrow> nat \<Rightarrow> 'a list" where
  "subarray xs off n = take n (drop off xs)"

text \<open>
  \<^verbatim>\<open>int write(T* data, int len)\<close>. The pointer \<^verbatim>\<open>data\<close> is \<open>None\<close> for \<^verbatim>\<open>nullptr\<close> and
  otherwise the array it points to (which holds at least \<open>len\<close> elements in every call
  of the source). The result is the updated buffer and the returned count.
\<close>

definition RingBuffer_write :: "'a RingBuffer \<Rightarrow> 'a list option \<Rightarrow> int \<Rightarrow> 'a RingBuffer \<times> int" where
  "RingBuffer_write r data len =
     (case data of
        None \<Rightarrow> (r, 0)
      | Some d0 \<Rightarrow>
          if len \<le> 0 then (r, 0)
          else
            let d = (if len > capacity r then drop (nat (len - capacity r)) d0 else d0);
                len = (if len > capacity r then capacity r else len);
                size = (writePos r + capacity r - readPos r) mod capacity r;
                startPos = writePos r;
                endPos = (writePos r + len) mod capacity r;
                buf =
                  (if startPos < endPos then memcpy (buffer r) (nat startPos) (subarray d 0 (nat len))
                   else
                     let first_slice = capacity r - startPos in
                     memcpy (memcpy (buffer r) (nat startPos) (subarray d 0 (nat first_slice)))
                       0 (subarray d (nat first_slice) (nat (len - first_slice))));
                rp =
                  (if size + len > capacity r then (readPos r + size + len) mod capacity r
                   else readPos r)
            in (r\<lparr>buffer := buf, writePos := endPos, readPos := rp\<rparr>, len))"

text \<open>
  \<^verbatim>\<open>int read(T* data, int len)\<close>. Of the destination \<^verbatim>\<open>data\<close> the model keeps whether it
  is \<^verbatim>\<open>nullptr\<close>; the result is the updated buffer, the samples copied to
  \<^verbatim>\<open>data[0 ..< to_copy]\<close> and the returned count.
\<close>

datatype pointer = nullptr | non_null

definition RingBuffer_read :: "'a RingBuffer \<Rightarrow> pointer \<Rightarrow> int \<Rightarrow> 'a RingBuffer \<times> 'a list \<times> int" where
  "RingBuffer_read r data len =
     (let available = (writePos r + capacity r - readPos r) mod capacity r in
      if available = 0 \<or> data = nullptr \<or> len \<le> 0 then (r, [], 0)
      else
        let to_copy = min len available;
            startPos = readPos r;
            endPos = (readPos r + to_copy) mod capacity r;
            out =
              (if startPos < endPos then subarray (buffer r) (nat startPos) (nat to_copy)
               else
                 let first_slice = capacity r - startPos in
                 subarray (buffer r) (nat startPos) (nat first_slice)
                   @ subarray (buffer r) 0 (nat (to_copy - first_slice)))
        in (r\<lparr>readPos := (readPos r + to_copy) mod capacity r\<rparr>, out, to_copy))"

text \<open>
  A history of calls on one buffer: each call is a \<^verbatim>\<open>write\<close> with its array and count or
  a \<^verbatim>\<open>read\<close> into a non-null destination with its count.
\<close>

datatype 'a rb_call = Write "'a list" int | Read int

fun rb_step :: "'a RingBuffer \<Rightarrow> 'a rb_call \<Rightarrow> 'a RingBuffer" where
  "rb_step r (Write d n) = fst (RingBuffer_write r (Some d) n)"
| "rb_step r (Read n) = fst (RingBuffer_read r non_null n)"

definition rb_run :: "'a RingBuffer \<Rightarrow> 'a rb_call list \<Rightarrow> 'a RingBuffer" where
  "rb_run r calls = foldl rb_step r calls"

text \<open>The cursors stay inside the array, whose length is the capacity.\<close>

definition cursors_ok :: "'a RingBuffer \<Rightarrow> bool" where
  "cursors_ok r \<longleftrightarrow>
     0 < capacity r \<and> 0 \<le> readPos r \<and> readPos r < capacity r \<and>
     0 \<le> writePos r \<and> writePos r < capacity r"

definition rb_inv :: "'a RingBuffer \<Rightarrow> bool" where
  "rb_inv r \<longleftrightarrow> cursors_ok r \<and> int (length (buffer r)) = capacity r"

text \<open>A call reads its source array inside its bounds.\<close>

fun rb_call_ok :: "'a rb_call \<Rightarrow> bool" where
  "rb_call_ok (Write d n) = (n \<le> int (length d))"
| "rb_call_ok (Read n) = True"

text \<open>
  The size the specification promises after a history of calls on a fresh buffer: the
  total written minus the total read, kept between 0 and the capacity.
\<close>

fun spec_size_step :: "int \<Rightarrow> int \<Rightarrow> 'a rb_call \<Rightarrow> int" where
  "spec_size_step cap sz (Write d n) = (if n \<le> 0 then sz else min cap (sz + n))"
| "spec_size_step cap sz (Read n) = (if n \<le> 0 then sz else max 0 (sz - n))"

definition spec_size :: "int \<Rightarrow> 'a rb_call list \<Rightarrow> int" where
  "spec_size cap calls = foldl (spec_size_step cap) 0 calls"

section \<open>UsbAudioStreamer.h: the data of the streamer\<close>

datatype StreamerState =
  INITIAL | READY_TO_START | STARTING | STARTED | STOPPING | STOPPED
  | DESTROYING | DESTROYED | ERROR

text \<open>
  \<^verbatim>\<open>struct UsbAudioStreamerStats\<close>. The counters are the unsigned machine integers of the
  source; a \<^verbatim>\<open>steady_clock::time_point\<close> is its count of nanoseconds since the epoch.
\<close>

record UsbAudioStreamerStats =
  total_bytes :: "32 word"
  usb_cb_counter :: "16 word"
  player_cb_counter :: "16 word"
  event_loops :: "16 word"
  t0_10_s :: int
  samplingFrequency :: "32 word"
  currentSamplingFrequency :: "32 word"
  t0_1_s :: int

text \<open>Integer division of C++ (the quotient is truncated towards zero).\<close>

definition cdiv :: "int \<Rightarrow> int \<Rightarrow> int" where
  "cdiv a b = sgn a * sgn b * (\<bar>a\<bar> div \<bar>b\<bar>)"

text \<open>
  The value of an arithmetic result in \<^verbatim>\<open>int\<close> (32 bits, two's complement). Inside the
  range it is the result itself; outside, signed overflow is undefined in C++ and the
  model takes the wrapped value that the compiled code yields. A conversion from
  \<^verbatim>\<open>unsigned int\<close> to \<^verbatim>\<open>int\<close> gives the same value.
\<close>

definition int32 :: "int \<Rightarrow> int" where
  "int32 x = (x + 2 ^ 31) mod 2 ^ 32 - 2 ^ 31"

text \<open>\<^verbatim>\<open>duration_cast<seconds>\<close> of a difference of time points.\<close>

definition seconds_of :: "int \<Rightarrow> int" where
  "seconds_of ns = cdiv ns 1000000000"

text \<open>
  \<^verbatim>\<open>recordSamples(samples)\<close>; \<open>now1\<close> and \<open>now2\<close> are the two readings of
  \<^verbatim>\<open>high_resolution_clock::now()\<close>.
\<close>

definition recordSamples :: "int \<Rightarrow> int \<Rightarrow> 32 word \<Rightarrow> UsbAudioStreamerStats \<Rightarrow> UsbAudioStreamerStats" where
  "recordSamples now1 now2 samples st =
     (let st1 = st\<lparr>currentSamplingFrequency := currentSamplingFrequency st + samples\<rparr> in
      if seconds_of (now1 - t0_1_s st1) \<ge> 1 then
        st1\<lparr>t0_1_s := now2,
             samplingFrequency := currentSamplingFrequency st1,
             currentSamplingFrequency := 0\<rparr>
      else st1)"

text \<open>
  \<^verbatim>\<open>struct TransferUserData\<close>: the handle of its \<^verbatim>\<open>libusb_transfer\<close> and the in-flight
  flag. The back pointer \<^verbatim>\<open>streamer\<close> is the streamer that owns the slot.
\<close>

record TransferUserData =
  transfer :: nat
  isSubmitted :: bool

text \<open>
  The parts of libusb's descriptors and transfers that the source reads. In a
  \<^verbatim>\<open>libusb_transfer\<close>, \<open>user_data\<close> is the index of the slot of \<^verbatim>\<open>transfers_\<close> it points to
  (\<open>None\<close> for \<^verbatim>\<open>nullptr\<close>), and \<open>packet_buffer\<close> is what
  \<^verbatim>\<open>libusb_get_iso_packet_buffer_simple\<close> returns for the packet, read as \<^verbatim>\<open>uint16_t*\<close>.
\<close>

datatype libusb_transfer_status =
  LIBUSB_TRANSFER_COMPLETED | LIBUSB_TRANSFER_ERROR | LIBUSB_TRANSFER_TIMED_OUT
  | LIBUSB_TRANSFER_CANCELLED | LIBUSB_TRANSFER_STALL | LIBUSB_TRANSFER_NO_DEVICE
  | LIBUSB_TRANSFER_OVERFLOW

datatype libusb_error = LIBUSB_SUCCESS | LIBUSB_ERROR_NO_DEVICE | LIBUSB_ERROR_OTHER

record libusb_iso_packet_descriptor =
  packet_status :: libusb_transfer_status
  actual_length :: "32 word"
  packet_buffer :: "16 word list"

record libusb_transfer =
  status :: libusb_transfer_status
  user_data :: "nat option"
  iso_packet_desc :: "libusb_iso_packet_descriptor list"

record libusb_endpoint_descriptor =
  bEndpointAddress :: "8 word"
  wMaxPacketSize :: "16 word"

record libusb_interface_descriptor =
  bInterfaceClass :: "8 word"
  bInterfaceSubClass :: "8 word"
  bInterfaceNumber :: "8 word"
  bAlternateSetting :: "8 word"
  endpoint :: "libusb_endpoint_descriptor list"

text \<open>
  An interface is the list of its alternate settings, a configuration descriptor the
  list of its interfaces.
\<close>

type_synonym libusb_config_descriptor = "libusb_interface_descriptor list list"

text \<open>
  \<^verbatim>\<open>class UsbAudioStreamer\<close>. A pointer to a resource of libusb or AAudio is the flag
  "not null"; \<open>submit_log\<close> lists the slots handed to \<^verbatim>\<open>libusb_submit_transfer\<close>, latest
  first (it records the calls, the source has no such field). The fields \<^verbatim>\<open>jAudioFormat_\<close>
  and \<^verbatim>\<open>samplingFrequency_\<close>, which only \<^verbatim>\<open>statsSummaryString\<close> reads, the libusb context
  and the mutex with its condition variable are left out.
\<close>

record UsbAudioStreamer =
  deviceHandle :: bool
  config :: "libusb_config_descriptor option"
  transfers :: "TransferUserData list"
  endpointAddress :: "8 word"
  maxPacketSize :: "16 word"
  detachedInterface :: int
  claimedInterface :: int
  subFrameSize :: "8 word"
  channelCount :: "8 word"
  framesPerBurst :: int
  bufferCapacityInFrames :: int
  ringBuffer :: "16 word RingBuffer"
  state :: StreamerState
  stopUsbAudioCapture :: int
  audioStreamBuilder :: bool
  audioStream :: bool
  streamerStats :: UsbAudioStreamerStats
  callbackErrorLoggedAt :: int
  submit_log :: "nat list"

text \<open>
  \<^verbatim>\<open>bytesInAudioFrames\<close> forms \<^verbatim>\<open>numFrames * channelCount_ * subFrameSize_\<close> in \<^verbatim>\<open>int\<close> and
  returns it as \<^verbatim>\<open>uint32_t\<close>: the product modulo \<open>2^32\<close>, whether or not the \<^verbatim>\<open>int\<close>
  products wrapped on the way.
\<close>

definition bytesInAudioFrames :: "UsbAudioStreamer \<Rightarrow> int \<Rightarrow> int" where
  "bytesInAudioFrames s numFrames =
     (numFrames * uint (channelCount s) * uint (subFrameSize s)) mod 2 ^ 32"

text \<open>\<^verbatim>\<open>hasActiveTransfers\<close>: \<^verbatim>\<open>count_if(isSubmitted) > 0\<close>.\<close>

definition hasActiveTransfers :: "UsbAudioStreamer \<Rightarrow> bool" where
  "hasActiveTransfers s \<longleftrightarrow> length (filter isSubmitted (transfers s)) > 0"

text \<open>\<^verbatim>\<open>samplesFromByteCount\<close>: \<^verbatim>\<open>byteCount / channelCount_ / subFrameSize_\<close> on \<^verbatim>\<open>uint32_t\<close>.\<close>

definition samplesFromByteCount :: "UsbAudioStreamer \<Rightarrow> 32 word \<Rightarrow> 32 word" where
  "samplesFromByteCount s byteCount =
     word_of_int (uint byteCount div uint (channelCount s) div uint (subFrameSize s))"

section \<open>UsbAudioStreamer.cpp: negotiation and construction\<close>

text \<open>
  The answers of libusb during \<^verbatim>\<open>resolveAudioInterface\<close>, by interface number:
  \<^verbatim>\<open>libusb_kernel_driver_active(..) == 1\<close>, and whether \<^verbatim>\<open>libusb_detach_kernel_driver\<close>,
  \<^verbatim>\<open>libusb_claim_interface\<close> and \<^verbatim>\<open>libusb_set_interface_alt_setting\<close> return
  \<^verbatim>\<open>LIBUSB_SUCCESS\<close>.
\<close>

record usb_answers =
  kernel_driver_active :: "8 word \<Rightarrow> bool"
  detach_kernel_driver_ok :: "8 word \<Rightarrow> bool"
  claim_interface_ok :: "8 word \<Rightarrow> bool"
  set_interface_alt_setting_ok :: "8 word \<Rightarrow> 8 word \<Rightarrow> bool"

text \<open>
  The three nested loops of \<^verbatim>\<open>resolveAudioInterface\<close> return at the first endpoint with
  the bit \<^verbatim>\<open>LIBUSB_ENDPOINT_IN\<close> (0x80) of an alternate setting of class
  \<^verbatim>\<open>LIBUSB_CLASS_AUDIO\<close> (1) and subclass \<^verbatim>\<open>kInterfaceSubClassStreaming\<close> (2): the
  search below finds it, with the index \<open>i\<close> of its interface.
\<close>

fun first_in_endpoint :: "libusb_endpoint_descriptor list \<Rightarrow> libusb_endpoint_descriptor option" where
  "first_in_endpoint [] = None"
| "first_in_endpoint (e # es) =
     (if and (bEndpointAddress e) 0x80 \<noteq> 0 then Some e else first_in_endpoint es)"

fun first_streaming_altsetting ::
  "libusb_interface_descriptor list \<Rightarrow> (libusb_interface_descriptor \<times> libusb_endpoint_descriptor) option" where
  "first_streaming_altsetting [] = None"
| "first_streaming_altsetting (d # ds) =
     (if bInterfaceClass d = 1 \<and> bInterfaceSubClass d = 2 \<and> length (endpoint d) > 0 then
        (case first_in_endpoint (endpoint d) of
           Some e \<Rightarrow> Some (d, e)
         | None \<Rightarrow> first_streaming_altsetting ds)
      else first_streaming_altsetting ds)"

fun first_streaming_interface ::
  "nat \<Rightarrow> libusb_config_descriptor \<Rightarrow> (nat \<times> libusb_interface_descriptor \<times> libusb_endpoint_descriptor) option" where
  "first_streaming_interface i [] = None"
| "first_streaming_interface i (alts # rest) =
     (case first_streaming_altsetting alts of
        Some (d, e) \<Rightarrow> Some (i, d, e)
      | None \<Rightarrow> first_streaming_interface (Suc i) rest)"

definition resolveAudioInterface :: "usb_answers \<Rightarrow> UsbAudioStreamer \<Rightarrow> UsbAudioStreamer \<times> bool" where
  "resolveAudioInterface usb s =
     (case config s of
        None \<Rightarrow> (s, False)
      | Some cfg \<Rightarrow>
          (case first_streaming_interface 0 cfg of
             None \<Rightarrow> (s, False)
           | Some (i, d, e) \<Rightarrow>
               let interface_number = bInterfaceNumber d;
                   s1 = s\<lparr>endpointAddress := bEndpointAddress e, maxPacketSize := wMaxPacketSize e\<rparr>
               in
                 if kernel_driver_active usb interface_number
                    \<and> \<not> detach_kernel_driver_ok usb interface_number then (s1, False)
                 else
                   let s2 = (if kernel_driver_active usb interface_number
                             then s1\<lparr>detachedInterface := uint interface_number\<rparr> else s1)
                   in
                     if \<not> claim_interface_ok usb interface_number then (s2, False)
                     else
                       let s3 = s2\<lparr>claimedInterface := int i\<rparr> in
                       if \<not> set_interface_alt_setting_ok usb interface_number (bAlternateSetting d)
                       then (s3, False)
                       else (s3, True)))"

text \<open>
  The sizing arithmetic of \<^verbatim>\<open>allocateTransferRequests\<close>, on 32-bit \<^verbatim>\<open>int\<close> as in the
  source (\<^verbatim>\<open>uint8_t\<close> and \<^verbatim>\<open>uint16_t\<close> operands are promoted to \<^verbatim>\<open>int\<close>): every sum,
  difference and product is taken through \<open>int32\<close>. A division by zero and the division
  of \<open>-2^31\<close> by \<open>-1\<close> are undefined in the source (in HOL the first yields 0, the second
  \<open>2^31\<close>): what is proved about the quotients assumes positive divisors.
\<close>

record transfer_sizing =
  bytes_per_burst :: int
  num_packets :: int
  buffer_size :: int
  num_transfers :: int
  ring_buffer_capacity :: int

definition sizing :: "int \<Rightarrow> int \<Rightarrow> int \<Rightarrow> int \<Rightarrow> int \<Rightarrow> transfer_sizing" where
  "sizing maxPacketSize' framesPerBurst' bufferCapacityInFrames' subFrameSize' channelCount' =
     (let bytes_per_burst' = int32 (int32 (framesPerBurst' * subFrameSize') * channelCount');
          computed_num_packets =
            cdiv (int32 (int32 (bytes_per_burst' + maxPacketSize') - 1)) maxPacketSize';
          num_packets' = max 2 computed_num_packets;
          buffer_size' = int32 (maxPacketSize' * num_packets');
          computed_num_transfers =
            cdiv (int32 (int32 (bufferCapacityInFrames' + framesPerBurst') - 1)) framesPerBurst';
          num_transfers' = max 2 computed_num_transfers;
          ring_buffer_capacity' = cdiv (int32 (buffer_size' * num_transfers')) subFrameSize'
      in \<lparr>bytes_per_burst = bytes_per_burst', num_packets = num_packets',
          buffer_size = buffer_size', num_transfers = num_transfers',
          ring_buffer_capacity = ring_buffer_capacity'\<rparr>)"

text \<open>
  What the audio stream and libusb answer during \<^verbatim>\<open>allocateTransferRequests\<close>:
  \<^verbatim>\<open>AAudioStream_getFramesPerBurst\<close>, \<^verbatim>\<open>AAudioStream_getBufferCapacityInFrames\<close>, and for
  the loop index \<open>i\<close> the handle \<^verbatim>\<open>libusb_alloc_transfer\<close> returns (\<open>None\<close> for
  \<^verbatim>\<open>nullptr\<close>).
\<close>

record alloc_answers =
  getFramesPerBurst :: int
  getBufferCapacityInFrames :: int
  alloc_transfer :: "nat \<Rightarrow> nat option"

text \<open>The allocation loop: a slot is appended for every transfer libusb allocates.\<close>

fun alloc_loop :: "(nat \<Rightarrow> nat option) \<Rightarrow> nat list \<Rightarrow> TransferUserData list \<Rightarrow> TransferUserData list" where
  "alloc_loop alloc [] ts = ts"
| "alloc_loop alloc (i # is) ts =
     (case alloc i of
        None \<Rightarrow> alloc_loop alloc is ts
      | Some h \<Rightarrow> alloc_loop alloc is (ts @ [\<lparr>transfer = h, isSubmitted = False\<rparr>]))"

definition allocateTransferRequests :: "alloc_answers \<Rightarrow> UsbAudioStreamer \<Rightarrow> UsbAudioStreamer" where
  "allocateTransferRequests a s =
     (let s1 = s\<lparr>framesPerBurst := getFramesPerBurst a,
                 bufferCapacityInFrames := getBufferCapacityInFrames a\<rparr>;
          z = sizing (uint (maxPacketSize s1)) (framesPerBurst s1) (bufferCapacityInFrames s1)
                (uint (subFrameSize s1)) (uint (channelCount s1));
          s2 = (if capacity (ringBuffer s1) \<noteq> ring_buffer_capacity z
                then s1\<lparr>ringBuffer := RingBuffer_new (ring_buffer_capacity z)\<rparr> else s1)
      in s2\<lparr>transfers := alloc_loop (alloc_transfer a) [0 ..< nat (num_transfers z)] (transfers s2)\<rparr>)"

text \<open>
  What the constructor is given and what the libraries answer: whether \<^verbatim>\<open>libusb_init\<close>,
  \<^verbatim>\<open>libusb_set_option\<close> (log level), \<^verbatim>\<open>libusb_wrap_sys_device\<close> and
  \<^verbatim>\<open>libusb_get_active_config_descriptor\<close> return \<^verbatim>\<open>LIBUSB_SUCCESS\<close> (and the descriptor
  read), whether \<^verbatim>\<open>AAudio_createStreamBuilder\<close> returns \<^verbatim>\<open>AAUDIO_OK\<close> with a builder,
  whether \<^verbatim>\<open>AAudioStreamBuilder_openStream\<close> returns \<^verbatim>\<open>AAUDIO_OK\<close>, the answers of the
  opened stream, and the clock reading that initialises \<^verbatim>\<open>t0_1_s\<close>.
\<close>

record negotiation =
  arg_subFrameSize :: "8 word"
  arg_channelCount :: "8 word"
  arg_framesPerBurst :: "32 word"
  libusb_init_ok :: bool
  set_option_log_level_ok :: bool
  wrap_sys_device_ok :: bool
  get_active_config_descriptor_ok :: bool
  active_config_descriptor :: libusb_config_descriptor
  createStreamBuilder_ok :: bool
  openStream_ok :: bool
  usb :: usb_answers
  stream :: alloc_answers
  construction_time :: int

text \<open>The object after its member initialisers, before the constructor's body.\<close>

definition initial_streamer :: "negotiation \<Rightarrow> UsbAudioStreamer" where
  "initial_streamer n =
     \<lparr>deviceHandle = False, config = None, transfers = [], endpointAddress = 0,
      maxPacketSize = 0, detachedInterface = - 1, claimedInterface = - 1,
      subFrameSize = arg_subFrameSize n, channelCount = arg_channelCount n,
      framesPerBurst = sint (arg_framesPerBurst n), bufferCapacityInFrames = 0,
      ringBuffer = RingBuffer_new 3072, state = INITIAL, stopUsbAudioCapture = 0,
      audioStreamBuilder = False, audioStream = False,
      streamerStats =
        \<lparr>total_bytes = 0, usb_cb_counter = 0, player_cb_counter = 0, event_loops = 0,
         t0_10_s = 0, samplingFrequency = 0, currentSamplingFrequency = 0,
         t0_1_s = construction_time n\<rparr>,
      callbackErrorLoggedAt = 0, submit_log = []\<rparr>"

text \<open>
  The constructor's body. A failure of \<^verbatim>\<open>libusb_init\<close> is logged and the body goes on;
  the result of \<^verbatim>\<open>AAudioStreamBuilder_openStream\<close> is logged and not tested.
\<close>

definition UsbAudioStreamer_new :: "negotiation \<Rightarrow> UsbAudioStreamer" where
  "UsbAudioStreamer_new n =
     (let s = initial_streamer n in
      if \<not> set_option_log_level_ok n then s
      else if \<not> wrap_sys_device_ok n then s
      else
        let s1 = s\<lparr>deviceHandle := True\<rparr> in
        if \<not> get_active_config_descriptor_ok n then s1
        else
          let s2 = s1\<lparr>config := Some (active_config_descriptor n)\<rparr> in
          if \<not> createStreamBuilder_ok n then s2\<lparr>state := ERROR\<rparr>
          else
            let s3 = s2\<lparr>audioStreamBuilder := True, audioStream := openStream_ok n,
                        framesPerBurst := getFramesPerBurst (stream n),
                        bufferCapacityInFrames := getBufferCapacityInFrames (stream n)\<rparr>;
                (s4, resolved) = resolveAudioInterface (usb n) s3
            in
              if \<not> resolved then s4\<lparr>state := ERROR\<rparr>
              else (allocateTransferRequests (stream n) s4)\<lparr>state := READY_TO_START\<rparr>)"

section \<open>UsbAudioStreamer.cpp: the transfer completion callback\<close>

text \<open>
  What the callback reads from outside the object: \<^verbatim>\<open>steady_clock::now()\<close> while it skips
  packet \<open>i\<close>, the reading after the packet loop, the two readings of
  \<^verbatim>\<open>high_resolution_clock::now()\<close> in \<^verbatim>\<open>recordSamples\<close>, and the result of the final
  \<^verbatim>\<open>libusb_submit_transfer\<close>.
\<close>

record callback_answers =
  packet_now :: "nat \<Rightarrow> int"
  stats_now :: int
  record_now1 :: int
  record_now2 :: int
  resubmit :: libusb_error

text \<open>\<^verbatim>\<open>transferUserData->isSubmitted = b\<close> for the slot the transfer points to.\<close>

definition set_isSubmitted :: "nat \<Rightarrow> bool \<Rightarrow> TransferUserData list \<Rightarrow> TransferUserData list" where
  "set_isSubmitted slot b ts =
     (if slot < length ts then ts[slot := (ts ! slot)\<lparr>isSubmitted := b\<rparr>] else ts)"

text \<open>
  The loop over the isochronous packets, from packet \<open>i\<close> with the byte count \<open>len\<close> so
  far: a packet that is not completed is skipped (the log is rate-limited to one line in
  60 s), a completed one is written to the ring buffer as \<^verbatim>\<open>actual_length / 2\<close> samples
  (\<^verbatim>\<open>actual_length\<close> is an \<^verbatim>\<open>unsigned int\<close>, \<^verbatim>\<open>len\<close> an \<^verbatim>\<open>int\<close>).
\<close>

fun iso_packet_loop ::
  "(nat \<Rightarrow> int) \<Rightarrow> nat \<Rightarrow> libusb_iso_packet_descriptor list \<Rightarrow> UsbAudioStreamer \<Rightarrow> int
     \<Rightarrow> UsbAudioStreamer \<times> int" where
  "iso_packet_loop now i [] s len = (s, len)"
| "iso_packet_loop now i (pack # packs) s len =
     (if packet_status pack \<noteq> LIBUSB_TRANSFER_COMPLETED then
        iso_packet_loop now (Suc i) packs
          (if now i - callbackErrorLoggedAt s > 60 * 1000000000
           then s\<lparr>callbackErrorLoggedAt := now i\<rparr> else s)
          len
      else
        let dataSize = uint (actual_length pack) div 2;
            (rb, result) = RingBuffer_write (ringBuffer s) (Some (packet_buffer pack)) dataSize
        in iso_packet_loop now (Suc i) packs (s\<lparr>ringBuffer := rb\<rparr>)
             (int32 (len + uint (actual_length pack))))"

text \<open>The statistics after the packet loop (\<^verbatim>\<open>/* update stats */\<close>).\<close>

definition update_stats :: "callback_answers \<Rightarrow> UsbAudioStreamer \<Rightarrow> int \<Rightarrow> UsbAudioStreamerStats" where
  "update_stats a s len =
     (let st = streamerStats s;
          st1 = (if len > 0
                 then recordSamples (record_now1 a) (record_now2 a)
                        (samplesFromByteCount s (word_of_int len)) st
                 else st);
          now = stats_now a;
          st2 = (if t0_10_s st1 = 0
                 then st1\<lparr>t0_10_s := now, total_bytes := 0, player_cb_counter := 0,
                          usb_cb_counter := 0\<rparr>
                 else st1);
          st3 = st2\<lparr>total_bytes := total_bytes st2 + word_of_int len,
                     usb_cb_counter := usb_cb_counter st2 + 1\<rparr>
      in if seconds_of (now - t0_10_s st3) \<ge> 10
         then st3\<lparr>t0_10_s := now, total_bytes := 0, player_cb_counter := 0,
                   usb_cb_counter := 0, event_loops := 0\<rparr>
         else st3)"

text \<open>
  \<^verbatim>\<open>static void transferCallback(libusb_transfer* transfer)\<close>; the streamer it reaches
  through \<^verbatim>\<open>transferUserData->streamer\<close> is passed and returned.
\<close>

definition transferCallback ::
  "callback_answers \<Rightarrow> libusb_transfer option \<Rightarrow> UsbAudioStreamer \<Rightarrow> UsbAudioStreamer" where
  "transferCallback a tr s =
     (case tr of
        None \<Rightarrow> s
      | Some t \<Rightarrow>
          (case user_data t of
             None \<Rightarrow> s
           | Some slot \<Rightarrow>
               let s1 = s\<lparr>transfers := set_isSubmitted slot False (transfers s)\<rparr> in
               if status t = LIBUSB_TRANSFER_NO_DEVICE then s1
               else if state s1 = STOPPING then s1
               else if state s1 = DESTROYING \<or> state s1 = DESTROYED then s1
               else
                 let (s2, len) = iso_packet_loop (packet_now a) 0 (iso_packet_desc t) s1 0;
                     s3 = s2\<lparr>streamerStats := update_stats a s2 len\<rparr>;
                     maxExpectedLen =
                       int32 (uint (maxPacketSize s3) * int (length (iso_packet_desc t)))
                 in
                   if len > maxExpectedLen then s3
                   else
                     let s4 = s3\<lparr>submit_log := slot # submit_log s3\<rparr> in
                     if resubmit a = LIBUSB_SUCCESS
                     then s4\<lparr>transfers := set_isSubmitted slot True (transfers s4)\<rparr>
                     else s4))"

section \<open>UsbAudioStreamer.cpp: the render callback\<close>

datatype aaudio_data_callback_result =
  AAUDIO_CALLBACK_RESULT_CONTINUE | AAUDIO_CALLBACK_RESULT_STOP

text \<open>
  \<^verbatim>\<open>libusb_handle_events_timeout_completed\<close> runs the completion callback of every
  transfer that has completed, in order; the list holds these transfers, each with what
  its callback reads from outside.
\<close>

definition handle_events ::
  "(libusb_transfer \<times> callback_answers) list \<Rightarrow> UsbAudioStreamer \<Rightarrow> UsbAudioStreamer" where
  "handle_events completed s = foldl (\<lambda>s' (t, a). transferCallback a (Some t) s') s completed"

text \<open>Conversion of an \<^verbatim>\<open>int\<close> to \<^verbatim>\<open>size_t\<close> (64 bits) in a comparison.\<close>

definition size_t_of :: "int \<Rightarrow> int" where
  "size_t_of x = x mod 2 ^ 64"

text \<open>The bytes of \<^verbatim>\<open>uint16_t\<close> samples in memory (little endian).\<close>

definition bytes_of_samples :: "16 word list \<Rightarrow> 8 word list" where
  "bytes_of_samples xs = concat (map (\<lambda>w. [ucast w, ucast (drop_bit 8 w)]) xs)"

text \<open>
  \<^verbatim>\<open>audioPlaybackCallback(stream, userData, audioData, numFrames)\<close>: the streamer is
  \<^verbatim>\<open>userData\<close>, \<open>audioData\<close> the bytes of the output block before the call. The result is
  the streamer, the bytes of the block after the call, and the returned value.
  \<^verbatim>\<open>sizeToRead\<close> is an \<^verbatim>\<open>int\<close>, converted to \<^verbatim>\<open>size_t\<close> for the comparison with
  \<^verbatim>\<open>available\<close>.
\<close>

definition audioPlaybackCallback ::
  "(libusb_transfer \<times> callback_answers) list \<Rightarrow> UsbAudioStreamer \<Rightarrow> 8 word list \<Rightarrow> int
     \<Rightarrow> UsbAudioStreamer \<times> 8 word list \<times> aaudio_data_callback_result" where
  "audioPlaybackCallback completed s audioData numFrames =
     (let sizeToRead = int32 (uint (channelCount s) * numFrames);
          bytesToRead = bytesInAudioFrames s numFrames;
          s1 = s\<lparr>streamerStats :=
                  (streamerStats s)\<lparr>event_loops := event_loops (streamerStats s) + 1\<rparr>\<rparr>;
          s2 = handle_events completed s1;
          s3 = s2\<lparr>streamerStats :=
                   (streamerStats s2)\<lparr>player_cb_counter :=
                      player_cb_counter (streamerStats s2) + 1\<rparr>\<rparr>;
          available = RingBuffer_size (ringBuffer s3)
      in
        if available < size_t_of sizeToRead then
          (s3, memcpy audioData 0 (replicate (nat bytesToRead) 0),
           AAUDIO_CALLBACK_RESULT_CONTINUE)
        else
          let (rb, out, movedData) = RingBuffer_read (ringBuffer s3) non_null sizeToRead
          in (s3\<lparr>ringBuffer := rb\<rparr>, memcpy audioData 0 (bytes_of_samples out),
              AAUDIO_CALLBACK_RESULT_CONTINUE))"

text \<open>
  The streamer at the point where the callback reads \<^verbatim>\<open>ringBuffer_->size()\<close>: the event
  loop has been counted, the completion callbacks have run, the callback has been counted.
\<close>

definition at_size_check ::
  "(libusb_transfer \<times> callback_answers) list \<Rightarrow> UsbAudioStreamer \<Rightarrow> UsbAudioStreamer" where
  "at_size_check completed s =
     (let s1 = s\<lparr>streamerStats :=
                  (streamerStats s)\<lparr>event_loops := event_loops (streamerStats s) + 1\<rparr>\<rparr>;
          s2 = handle_events completed s1
      in s2\<lparr>streamerStats :=
              (streamerStats s2)\<lparr>player_cb_counter :=
                 player_cb_counter (streamerStats s2) + 1\<rparr>\<rparr>)"

section \<open>UsbAudioStreamer.cpp: start and stop\<close>

datatype aaudio_stream_state =
  AAUDIO_STREAM_STATE_UNINITIALIZED | AAUDIO_STREAM_STATE_UNKNOWN | AAUDIO_STREAM_STATE_OPEN
  | AAUDIO_STREAM_STATE_STARTING | AAUDIO_STREAM_STATE_STARTED | AAUDIO_STREAM_STATE_PAUSING
  | AAUDIO_STREAM_STATE_PAUSED | AAUDIO_STREAM_STATE_FLUSHING | AAUDIO_STREAM_STATE_FLUSHED
  | AAUDIO_STREAM_STATE_STOPPING | AAUDIO_STREAM_STATE_STOPPED | AAUDIO_STREAM_STATE_CLOSING
  | AAUDIO_STREAM_STATE_CLOSED | AAUDIO_STREAM_STATE_DISCONNECTED

text \<open>
  \<^verbatim>\<open>submitTransferRequests\<close>: every slot is handed to \<^verbatim>\<open>libusb_submit_transfer\<close>, whose
  result for the slot at index \<open>i\<close> is \<open>submit i\<close>.
\<close>

fun submit_loop :: "(nat \<Rightarrow> libusb_error) \<Rightarrow> nat \<Rightarrow> TransferUserData list \<Rightarrow> TransferUserData list" where
  "submit_loop submit i [] = []"
| "submit_loop submit i (t # ts) =
     t\<lparr>isSubmitted := (submit i = LIBUSB_SUCCESS)\<rparr> # submit_loop submit (Suc i) ts"





text \<open>
  While \<^verbatim>\<open>stop()\<close> waits on the condition variable, the audio thread runs the render
  callback, which runs the completion callbacks: a \<open>render_call\<close> is one such invocation,
  and \<open>during_wait k\<close> lists the invocations during wait number \<open>k\<close> (counted from 0).
  \<^verbatim>\<open>stopAudioPlayer\<close> is answered whether \<^verbatim>\<open>AAudioStream_requestStop\<close> returns
  \<^verbatim>\<open>AAUDIO_OK\<close> and the \<^verbatim>\<open>nextState\<close> after its wait.
\<close>

record render_call =
  render_completed :: "(libusb_transfer \<times> callback_answers) list"
  render_audioData :: "8 word list"
  render_numFrames :: int


definition render :: "UsbAudioStreamer \<Rightarrow> render_call \<Rightarrow> UsbAudioStreamer" where
  "render s c =
     fst (audioPlaybackCallback (render_completed c) s (render_audioData c) (render_numFrames c))"

text \<open>
  The loop \<^verbatim>\<open>while (hasActiveTransfers() && tries++ < 5) { wait_for(100ms) }\<close>, from the
  value \<open>tries\<close>; the result is the streamer and the value of \<^verbatim>\<open>tries\<close> after the loop.
\<close>

function stop_wait :: "(nat \<Rightarrow> render_call list) \<Rightarrow> nat \<Rightarrow> UsbAudioStreamer \<Rightarrow> UsbAudioStreamer \<times> nat" where
  "stop_wait waits tries s =
     (if hasActiveTransfers s then
        (if tries < 5 then stop_wait waits (tries + 1) (foldl render s (waits tries))
         else (s, tries + 1))
      else (s, tries))"
  by pat_completeness auto
termination
  by (relation "measure (\<lambda>(waits, tries, s). 5 - tries)") auto

declare stop_wait.simps [simp del]



section \<open>Sample inputs\<close>

text \<open>
  A negotiation in which every step succeeds: 16-bit stereo, one streaming interface
  (number 1, alternate setting 1) with the IN endpoint 0x81 of packet size 192, no kernel
  driver, a stream with bursts of 192 frames and a capacity of 960 frames.
\<close>

definition sample_negotiation :: negotiation where
  "sample_negotiation =
     \<lparr>arg_subFrameSize = 2, arg_channelCount = 2, arg_framesPerBurst = 192,
      libusb_init_ok = True, set_option_log_level_ok = True, wrap_sys_device_ok = True,
      get_active_config_descriptor_ok = True,
      active_config_descriptor =
        [[\<lparr>bInterfaceClass = 1, bInterfaceSubClass = 2, bInterfaceNumber = 1,
           bAlternateSetting = 1,
           endpoint = [\<lparr>bEndpointAddress = 0x81, wMaxPacketSize = 192\<rparr>]\<rparr>]],
      createStreamBuilder_ok = True, openStream_ok = True,
      usb = \<lparr>kernel_driver_active = (\<lambda>i. False), detach_kernel_driver_ok = (\<lambda>i. True),
             claim_interface_ok = (\<lambda>i. True),
             set_interface_alt_setting_ok = (\<lambda>i j. True)\<rparr>,
      stream = \<lparr>getFramesPerBurst = 192, getBufferCapacityInFrames = 960,
                alloc_transfer = (\<lambda>i. Some i)\<rparr>,
      construction_time = 0\<rparr>"

text \<open>A streamer with two slots, of which slot 0 is in flight, in a given state.\<close>

definition sample_streamer :: "StreamerState \<Rightarrow> UsbAudioStreamer" where
  "sample_streamer st =
     (initial_streamer sample_negotiation)
       \<lparr>transfers := [\<lparr>transfer = 0, isSubmitted = True\<rparr>, \<lparr>transfer = 1, isSubmitted = False\<rparr>],
        maxPacketSize := 192, ringBuffer := RingBuffer_new 8, state := st\<rparr>"

text \<open>What a completion callback reads from outside, with all clocks at 1 s.\<close>

definition sample_callback_answers :: "libusb_error \<Rightarrow> callback_answers" where
  "sample_callback_answers e =
     \<lparr>packet_now = (\<lambda>i. 1000000000), stats_now = 1000000000, record_now1 = 1000000000,
      record_now2 = 1000000000, resubmit = e\<rparr>"

text \<open>A completed transfer of slot 0 with one packet of two samples.\<close>

definition sample_transfer :: "libusb_transfer_status \<Rightarrow> libusb_transfer" where
  "sample_transfer st =
     \<lparr>status = st, user_data = Some 0,
      iso_packet_desc =
        [\<lparr>packet_status = LIBUSB_TRANSFER_COMPLETED, actual_length = 4,
          packet_buffer = [7, 8]\<rparr>]\<rparr>"



section \<open>Facts about the ring buffer\<close>

subsection \<open>Capacity and cursors\<close>

text \<open>No call changes the capacity, and the cursors stay inside the array.\<close>

lemma capacity_write: "capacity (fst (RingBuffer_write r data len)) = capacity r"
  by (simp add: RingBuffer_write_def Let_def split: option.split)

lemma capacity_read: "capacity (fst (RingBuffer_read r ok len)) = capacity r"
  by (simp add: RingBuffer_read_def Let_def)

lemma capacity_step: "capacity (rb_step r c) = capacity r"
  by (cases c) (simp_all add: capacity_write capacity_read)

lemma capacity_run: "capacity (rb_run r calls) = capacity r"
  unfolding rb_run_def by (induction calls arbitrary: r) (simp_all add: capacity_step)

lemma cursors_write: "cursors_ok r \<Longrightarrow> cursors_ok (fst (RingBuffer_write r data len))"
  by (simp add: RingBuffer_write_def cursors_ok_def Let_def split: option.split)

lemma cursors_read: "cursors_ok r \<Longrightarrow> cursors_ok (fst (RingBuffer_read r ok len))"
  by (simp add: RingBuffer_read_def cursors_ok_def Let_def)

lemma cursors_run: "cursors_ok r \<Longrightarrow> cursors_ok (rb_run r calls)"
  unfolding rb_run_def
proof (induction calls arbitrary: r)
  case Nil then show ?case by simp
next
  case (Cons c calls)
  have "cursors_ok (rb_step r c)" using Cons.prems by (cases c) (simp_all add: cursors_write cursors_read)
  then show ?case using Cons.IH by simp
qed

lemma cursors_new: "0 < cap \<Longrightarrow> cursors_ok (RingBuffer_new cap)"
  by (simp add: cursors_ok_def RingBuffer_new_def)

text \<open>
  With cursors inside the array and a capacity below \<open>2^30\<close>, the sums that the source
  forms on \<^verbatim>\<open>uint32_t\<close> and \<^verbatim>\<open>int\<close> stay inside 32 bits: the model on \<open>int\<close> computes
  what the source computes.
\<close>

lemma cursor_arithmetic_fits_32_bits:
  assumes "cursors_ok r" "capacity r < 2 ^ 30" "0 < len" "len \<le> capacity r"
  shows "0 \<le> writePos r + capacity r - readPos r \<and> writePos r + capacity r - readPos r < 2 ^ 32 \<and>
         writePos r + len < 2 ^ 32 \<and>
         readPos r + RingBuffer_size r + len < 2 ^ 32 \<and>
         RingBuffer_size r + len < 2 ^ 31"
proof -
  have "0 \<le> RingBuffer_size r" "RingBuffer_size r < capacity r"
    using assms(1) by (simp_all add: RingBuffer_size_def cursors_ok_def)
  then show ?thesis using assms unfolding cursors_ok_def by simp
qed

text \<open>
  Every cursor expression of the source lies below twice the capacity, where the
  remainder is a single conditional subtraction.
\<close>

lemma mod_lt_twice: "0 \<le> (x::int) \<Longrightarrow> x < 2 * c \<Longrightarrow> x mod c = (if x < c then x else x - c)"
proof (cases "x < c")
  case True
  assume "0 \<le> x" with True show ?thesis by simp
next
  case False
  assume "x < 2 * c"
  with False have "0 \<le> x - c" "x - c < c" by simp_all
  from mod_pos_pos_trivial [OF this] show ?thesis using False by simp
qed

lemma size_zero_iff: "cursors_ok r \<Longrightarrow> RingBuffer_size r = 0 \<longleftrightarrow> writePos r = readPos r"
  unfolding cursors_ok_def RingBuffer_size_def
  by (subst mod_lt_twice) auto

subsection \<open>Copies into and out of the array\<close>

lemma length_memcpy: "off + length src \<le> length dst \<Longrightarrow> length (memcpy dst off src) = length dst"
  by (simp add: memcpy_def)

lemma length_subarray: "off + n \<le> length xs \<Longrightarrow> length (subarray xs off n) = n"
  by (simp add: subarray_def)

lemma subarray_memcpy_same: "off \<le> length dst \<Longrightarrow> n = length src \<Longrightarrow> subarray (memcpy dst off src) off n = src"
  by (simp add: memcpy_def subarray_def)

lemma subarray_memcpy_before: "off' + n \<le> off \<Longrightarrow> off \<le> length dst \<Longrightarrow> subarray (memcpy dst off src) off' n = subarray dst off' n"
  by (simp add: memcpy_def subarray_def drop_take)

lemma subarray_memcpy_after: "off + length src \<le> off' \<Longrightarrow> off + length src \<le> length dst \<Longrightarrow> subarray (memcpy dst off src) off' n = subarray dst off' n"
  by (simp add: memcpy_def subarray_def)

lemma subarray_append: "subarray xs off n @ subarray xs (off + n) m = subarray xs off (n + m)"
  unfolding subarray_def
  by (metis add.commute drop_drop take_add)





subsection \<open>What a write and a read do, without the remainders\<close>

lemma overflow_readPos:
  "(readPos r + RingBuffer_size r + len) mod capacity r = (writePos r + len) mod capacity r"
proof -
  let ?X = "writePos r + capacity r - readPos r"
  have a: "?X + (readPos r + len) = writePos r + len + capacity r"
    by simp
  have "(readPos r + ?X mod capacity r + len) mod capacity r
      = (?X mod capacity r + (readPos r + len)) mod capacity r"
    by (simp only: ac_simps)
  also have "\<dots> = (?X + (readPos r + len)) mod capacity r"
    by (rule mod_add_left_eq)
  also have "\<dots> = (writePos r + len + capacity r) mod capacity r"
    by (simp only: a)
  also have "\<dots> = (writePos r + len) mod capacity r"
    by simp
  finally show ?thesis by (simp only: RingBuffer_size_def)
qed

lemma write_eq:
  assumes "cursors_ok r" "0 < len" "len \<le> capacity r"
  shows "RingBuffer_write r (Some d) len =
     (r\<lparr>buffer :=
          (if writePos r + len < capacity r
           then memcpy (buffer r) (nat (writePos r)) (subarray d 0 (nat len))
           else memcpy (memcpy (buffer r) (nat (writePos r))
                          (subarray d 0 (nat (capacity r - writePos r))))
                  0 (subarray d (nat (capacity r - writePos r))
                       (nat (len - (capacity r - writePos r))))),
        writePos :=
          (if writePos r + len < capacity r then writePos r + len
           else writePos r + len - capacity r),
        readPos :=
          (if RingBuffer_size r + len > capacity r
           then (if writePos r + len < capacity r then writePos r + len
                 else writePos r + len - capacity r)
           else readPos r)\<rparr>, len)"
proof -
  have b: "0 \<le> writePos r + len" "writePos r + len < 2 * capacity r"
    using assms by (simp_all add: cursors_ok_def)
  have e: "(writePos r + len) mod capacity r =
      (if writePos r + len < capacity r then writePos r + len else writePos r + len - capacity r)"
    by (rule mod_lt_twice [OF b])
  have o: "(readPos r + (writePos r + capacity r - readPos r) mod capacity r + len) mod capacity r
     = (writePos r + len) mod capacity r"
    using overflow_readPos [of r len] by (simp add: RingBuffer_size_def)
  show ?thesis
  proof (cases "writePos r + len < capacity r")
    case True
    then show ?thesis
      using assms(2,3)
      unfolding RingBuffer_write_def Let_def RingBuffer_size_def
      by (simp add: e o)
  next
    case False
    then have "\<not> writePos r < writePos r + len - capacity r" using assms(3) by simp
    with False show ?thesis
      using assms(2,3)
      unfolding RingBuffer_write_def Let_def RingBuffer_size_def
      by (simp add: e o)
  qed
qed

lemma write_truncate:
  assumes "capacity r < len" "0 < capacity r"
  shows "RingBuffer_write r (Some d) len =
         RingBuffer_write r (Some (drop (nat (len - capacity r)) d)) (capacity r)"
  using assms by (simp add: RingBuffer_write_def Let_def)

lemma read_eq:
  assumes "cursors_ok r" "0 < len" "0 < RingBuffer_size r"
  shows "RingBuffer_read r non_null len =
     (r\<lparr>readPos :=
          (if readPos r + min len (RingBuffer_size r) < capacity r
           then readPos r + min len (RingBuffer_size r)
           else readPos r + min len (RingBuffer_size r) - capacity r)\<rparr>,
      (if readPos r + min len (RingBuffer_size r) < capacity r
       then subarray (buffer r) (nat (readPos r)) (nat (min len (RingBuffer_size r)))
       else subarray (buffer r) (nat (readPos r)) (nat (capacity r - readPos r))
            @ subarray (buffer r) 0
                (nat (min len (RingBuffer_size r) - (capacity r - readPos r)))),
      min len (RingBuffer_size r))"
proof -
  define n where "n = min len (RingBuffer_size r)"
  have sz: "RingBuffer_size r < capacity r" using assms(1) by (simp add: RingBuffer_size_def cursors_ok_def)
  have n: "0 < n" "n < capacity r" using assms sz by (simp_all add: n_def)
  have b: "0 \<le> readPos r + n" "readPos r + n < 2 * capacity r"
    using assms n by (simp_all add: cursors_ok_def)
  have e: "(readPos r + n) mod capacity r =
      (if readPos r + n < capacity r then readPos r + n else readPos r + n - capacity r)"
    by (rule mod_lt_twice [OF b])
  have u: "RingBuffer_read r non_null len =
     (r\<lparr>readPos := (readPos r + n) mod capacity r\<rparr>,
      (if readPos r < (readPos r + n) mod capacity r
       then subarray (buffer r) (nat (readPos r)) (nat n)
       else subarray (buffer r) (nat (readPos r)) (nat (capacity r - readPos r))
            @ subarray (buffer r) 0 (nat (n - (capacity r - readPos r)))),
      n)"
    using assms(2,3) unfolding RingBuffer_read_def Let_def n_def RingBuffer_size_def
    by simp
  show ?thesis
  proof (cases "readPos r + n < capacity r")
    case True
    then show ?thesis using n unfolding u e n_def [symmetric] by simp
  next
    case False
    then have "\<not> readPos r < readPos r + n - capacity r" using n by simp
    with False show ?thesis using n unfolding u e n_def [symmetric] by simp
  qed
qed

subsection \<open>The size after a write and after a read\<close>

text \<open>
  A write of \<open>len\<close> samples adds \<open>min len capacity\<close> to the size while the sum stays below
  the capacity; when the sum reaches or passes the capacity both cursors coincide and the
  size is 0. A read takes off what it copies.
\<close>

lemma size_eq_if:
  assumes "cursors_ok r"
  shows "RingBuffer_size r =
     (if readPos r \<le> writePos r then writePos r - readPos r
      else writePos r + capacity r - readPos r)"
proof -
  have "0 \<le> writePos r + capacity r - readPos r"
       "writePos r + capacity r - readPos r < 2 * capacity r"
    using assms by (simp_all add: cursors_ok_def)
  from mod_lt_twice [OF this] show ?thesis
    unfolding RingBuffer_size_def by auto
qed

lemma size_write_le:
  assumes "cursors_ok r" "0 < len" "len \<le> capacity r"
  shows "RingBuffer_size (fst (RingBuffer_write r (Some d) len)) =
     (if RingBuffer_size r + len < capacity r then RingBuffer_size r + len else 0)"
proof -
  let ?r' = "fst (RingBuffer_write r (Some d) len)"
  have c': "cursors_ok ?r'" using assms(1) by (rule cursors_write)
  have cap: "capacity ?r' = capacity r" by (rule capacity_write)
  have wp: "writePos ?r' = (if writePos r + len < capacity r then writePos r + len
           else writePos r + len - capacity r)"
    by (simp add: write_eq [OF assms])
  have rp: "readPos ?r' = (if RingBuffer_size r + len > capacity r
           then (if writePos r + len < capacity r then writePos r + len
                 else writePos r + len - capacity r)
           else readPos r)"
    by (simp add: write_eq [OF assms])
  show ?thesis
    using assms
    unfolding size_eq_if [OF c'] size_eq_if [OF assms(1)] cap wp rp cursors_ok_def
    by (auto split: if_splits)
qed

lemma size_write:
  assumes "cursors_ok r" "0 < len"
  shows "RingBuffer_size (fst (RingBuffer_write r (Some d) len)) =
     (if RingBuffer_size r + min len (capacity r) < capacity r
      then RingBuffer_size r + min len (capacity r) else 0)"
proof (cases "len \<le> capacity r")
  case True
  then show ?thesis using size_write_le [OF assms True] by (simp add: min_def)
next
  case False
  have c: "0 < capacity r" using assms(1) by (simp add: cursors_ok_def)
  have "RingBuffer_size (fst (RingBuffer_write r (Some d) len)) =
        RingBuffer_size (fst (RingBuffer_write r (Some (drop (nat (len - capacity r)) d)) (capacity r)))"
    using False c by (simp add: write_truncate)
  also have "\<dots> = (if RingBuffer_size r + capacity r < capacity r then RingBuffer_size r + capacity r else 0)"
    using c by (intro size_write_le [OF assms(1)]) simp_all
  finally show ?thesis using False by (simp add: min_def)
qed

lemma size_read:
  assumes "cursors_ok r" "0 < len"
  shows "RingBuffer_size (fst (RingBuffer_read r non_null len)) =
     RingBuffer_size r - min len (RingBuffer_size r)"
proof (cases "RingBuffer_size r = 0")
  case True
  then show ?thesis using assms(2) by (simp add: RingBuffer_read_def RingBuffer_size_def)
next
  case False
  have "0 \<le> RingBuffer_size r" "RingBuffer_size r < capacity r"
    using assms(1) by (simp_all add: RingBuffer_size_def cursors_ok_def)
  with False have pos: "0 < RingBuffer_size r" by simp
  let ?r' = "fst (RingBuffer_read r non_null len)"
  have c': "cursors_ok ?r'" using assms(1) by (rule cursors_read)
  have cap: "capacity ?r' = capacity r" by (rule capacity_read)
  have wp: "writePos ?r' = writePos r" by (simp add: read_eq [OF assms pos])
  have rp: "readPos ?r' = (if readPos r + min len (RingBuffer_size r) < capacity r
           then readPos r + min len (RingBuffer_size r)
           else readPos r + min len (RingBuffer_size r) - capacity r)"
    by (simp add: read_eq [OF assms pos])
  show ?thesis
    using assms
    unfolding size_eq_if [OF c'] cap wp rp
    unfolding size_eq_if [OF assms(1)] cursors_ok_def
    by (auto simp: min_def split: if_splits)
qed

subsection \<open>Round trip below the capacity\<close>

text \<open>
  Into an empty buffer, a write of fewer samples than the capacity followed by a read of
  the same count gives the samples back in order.
\<close>

lemma subarray_0: "subarray xs 0 n = take n xs"
  by (simp add: subarray_def)

lemma write_read_roundtrip:
  assumes inv: "rb_inv r" and empty: "RingBuffer_size r = 0"
    and n: "0 < n" "n < capacity r" "n \<le> int (length d)"
  shows "snd (RingBuffer_write r (Some d) n) = n \<and>
         snd (RingBuffer_read (fst (RingBuffer_write r (Some d) n)) non_null n) = (take (nat n) d, n)"
proof -
  let ?r' = "fst (RingBuffer_write r (Some d) n)"
  have c: "cursors_ok r" and len: "int (length (buffer r)) = capacity r"
    using inv by (simp_all add: rb_inv_def)
  have nle: "n \<le> capacity r" using n by simp
  have weq: "RingBuffer_write r (Some d) n = (?r', n)"
    by (simp add: write_eq [OF c n(1) nle])
  have c': "cursors_ok ?r'" using c by (rule cursors_write)
  have sz': "RingBuffer_size ?r' = n"
    using size_write_le [OF c n(1) nle, of d] empty n by simp
  have eqp: "writePos r = readPos r" using size_zero_iff [OF c] empty by simp
  define p where "p = nat (readPos r)"
  define k where "k = nat n"
  define cp where "cp = nat (capacity r)"
  have p: "readPos r = int p" "writePos r = int p" "n = int k" "capacity r = int cp"
    using c n eqp by (simp_all add: p_def k_def cp_def cursors_ok_def)
  have bnd: "p < cp" "0 < k" "k < cp" "k \<le> length d" "length (buffer r) = cp"
    using c n len unfolding p cursors_ok_def by simp_all
  have cap': "capacity ?r' = int cp" using p by (simp add: capacity_write)
  have nn: "nat (int k - (int cp - int p)) = k - (cp - p)" using bnd by linarith
  have rp0: "readPos ?r' = readPos r"
    using empty n by (simp add: write_eq [OF c n(1) nle])
  have rp': "readPos ?r' = int p" using rp0 p by simp
  have buf0: "buffer ?r' =
      (if writePos r + n < capacity r
       then memcpy (buffer r) (nat (writePos r)) (subarray d 0 (nat n))
       else memcpy (memcpy (buffer r) (nat (writePos r))
                      (subarray d 0 (nat (capacity r - writePos r))))
              0 (subarray d (nat (capacity r - writePos r))
                   (nat (n - (capacity r - writePos r)))))"
    by (simp add: write_eq [OF c n(1) nle])
  have buf': "buffer ?r' =
      (if p + k < cp then memcpy (buffer r) p (subarray d 0 k)
       else memcpy (memcpy (buffer r) p (subarray d 0 (cp - p))) 0 (subarray d (cp - p) (k - (cp - p))))"
    unfolding buf0 unfolding p
    by (simp add: nn nat_diff_distrib' nat_add_distrib del: of_nat_add)
  have pos': "0 < RingBuffer_size ?r'" using sz' n by simp
  have out0: "fst (snd (RingBuffer_read ?r' non_null n)) =
      (if readPos ?r' + n < capacity ?r'
       then subarray (buffer ?r') (nat (readPos ?r')) (nat n)
       else subarray (buffer ?r') (nat (readPos ?r')) (nat (capacity ?r' - readPos ?r'))
            @ subarray (buffer ?r') 0 (nat (n - (capacity ?r' - readPos ?r'))))"
    unfolding read_eq [OF c' n(1) pos'] sz' by simp
  have out: "fst (snd (RingBuffer_read ?r' non_null n)) =
      (if p + k < cp then subarray (buffer ?r') p k
       else subarray (buffer ?r') p (cp - p) @ subarray (buffer ?r') 0 (k - (cp - p)))"
    unfolding out0 rp' cap' unfolding p
    by (simp add: nn nat_diff_distrib' nat_add_distrib del: of_nat_add)
  have cnt: "snd (snd (RingBuffer_read ?r' non_null n)) = n"
    unfolding read_eq [OF c' n(1) pos'] sz' by simp
  have "fst (snd (RingBuffer_read ?r' non_null n)) = take k d"
  proof (cases "p + k < cp")
    case True
    have "subarray (memcpy (buffer r) p (subarray d 0 k)) p k = subarray d 0 k"
      using bnd by (intro subarray_memcpy_same) (simp_all add: subarray_def)
    then show ?thesis using True by (simp add: out buf' subarray_0)
  next
    case False
    let ?A = "subarray d 0 (cp - p)"
    let ?B = "subarray d (cp - p) (k - (cp - p))"
    let ?m = "memcpy (buffer r) p ?A"
    have lA: "length ?A = cp - p" using bnd False by (simp add: subarray_def)
    have lB: "length ?B = k - (cp - p)" using bnd False by (simp add: subarray_def)
    have lm: "length ?m = cp" using bnd lA by (simp add: length_memcpy)
    have 1: "subarray (memcpy ?m 0 ?B) 0 (k - (cp - p)) = ?B"
      using lB by (intro subarray_memcpy_same) simp_all
    have "subarray (memcpy ?m 0 ?B) p (cp - p) = subarray ?m p (cp - p)"
      using bnd lB lm False by (intro subarray_memcpy_after) simp_all
    also have "\<dots> = ?A"
      using bnd lA by (intro subarray_memcpy_same) simp_all
    finally have 2: "subarray (memcpy ?m 0 ?B) p (cp - p) = ?A" .
    have "?A @ ?B = subarray d 0 (cp - p + (k - (cp - p)))"
      using subarray_append [of d 0 "cp - p" "k - (cp - p)"] by simp
    also have "\<dots> = take k d" using False bnd by (simp add: subarray_0)
    finally show ?thesis using False by (simp add: out buf' 1 2)
  qed
  then show ?thesis using weq cnt by (simp add: k_def prod_eq_iff)
qed

subsection \<open>The invariant\<close>

lemma size_bounds: "0 < capacity r \<Longrightarrow> 0 \<le> RingBuffer_size r \<and> RingBuffer_size r < capacity r"
  by (simp add: RingBuffer_size_def)

lemma length_write_le:
  assumes inv: "rb_inv r" and n: "0 < n" "n \<le> capacity r" "n \<le> int (length d)"
  shows "length (buffer (fst (RingBuffer_write r (Some d) n))) = length (buffer r)"
proof -
  have c: "cursors_ok r" and len: "int (length (buffer r)) = capacity r"
    using inv by (simp_all add: rb_inv_def)
  define p where "p = nat (writePos r)"
  define k where "k = nat n"
  define cp where "cp = nat (capacity r)"
  have p: "writePos r = int p" "n = int k" "capacity r = int cp"
    using c n by (simp_all add: p_def k_def cp_def cursors_ok_def)
  have bnd: "p < cp" "0 < k" "k \<le> cp" "k \<le> length d" "length (buffer r) = cp"
    using c n len unfolding p cursors_ok_def by simp_all
  have nn: "nat (int k - (int cp - int p)) = k - (cp - p)" using bnd by linarith
  have buf0: "buffer (fst (RingBuffer_write r (Some d) n)) =
      (if writePos r + n < capacity r
       then memcpy (buffer r) (nat (writePos r)) (subarray d 0 (nat n))
       else memcpy (memcpy (buffer r) (nat (writePos r))
                      (subarray d 0 (nat (capacity r - writePos r))))
              0 (subarray d (nat (capacity r - writePos r))
                   (nat (n - (capacity r - writePos r)))))"
    by (simp add: write_eq [OF c n(1,2)])
  have buf': "buffer (fst (RingBuffer_write r (Some d) n)) =
      (if p + k < cp then memcpy (buffer r) p (subarray d 0 k)
       else memcpy (memcpy (buffer r) p (subarray d 0 (cp - p))) 0 (subarray d (cp - p) (k - (cp - p))))"
    unfolding buf0 unfolding p
    by (simp add: nn nat_diff_distrib' nat_add_distrib del: of_nat_add)
  show ?thesis
  proof (cases "p + k < cp")
    case True
    then show ?thesis using bnd by (simp add: buf' length_memcpy subarray_def)
  next
    case False
    let ?A = "subarray d 0 (cp - p)"
    let ?B = "subarray d (cp - p) (k - (cp - p))"
    have lA: "length ?A = cp - p" using bnd False by (simp add: subarray_def)
    have lB: "length ?B = k - (cp - p)" using bnd False by (simp add: subarray_def)
    have lm: "length (memcpy (buffer r) p ?A) = cp" using bnd lA by (simp add: length_memcpy)
    have "length (memcpy (memcpy (buffer r) p ?A) 0 ?B) = cp"
      using lm lB bnd by (simp add: length_memcpy)
    then show ?thesis using False bnd by (simp add: buf')
  qed
qed

lemma rb_inv_write:
  assumes "rb_inv r" "n \<le> int (length d)"
  shows "rb_inv (fst (RingBuffer_write r (Some d) n))"
proof -
  have c: "cursors_ok r" and len: "int (length (buffer r)) = capacity r"
    using assms(1) by (simp_all add: rb_inv_def)
  have cpos: "0 < capacity r" using c by (simp add: cursors_ok_def)
  have "length (buffer (fst (RingBuffer_write r (Some d) n))) = length (buffer r)"
  proof (cases "n \<le> 0")
    case True
    then show ?thesis by (simp add: RingBuffer_write_def)
  next
    case pos: False
    show ?thesis
    proof (cases "n \<le> capacity r")
      case True
      then show ?thesis using pos assms by (intro length_write_le) simp_all
    next
      case False
      then have "RingBuffer_write r (Some d) n =
          RingBuffer_write r (Some (drop (nat (n - capacity r)) d)) (capacity r)"
        using cpos by (intro write_truncate) simp_all
      moreover have "length (buffer (fst (RingBuffer_write r (Some (drop (nat (n - capacity r)) d)) (capacity r))))
          = length (buffer r)"
        using assms cpos False by (intro length_write_le) simp_all
      ultimately show ?thesis by simp
    qed
  qed
  then show ?thesis
    using cursors_write [OF c, of "Some d" n] len by (simp add: rb_inv_def capacity_write)
qed

lemma rb_inv_read: "rb_inv r \<Longrightarrow> rb_inv (fst (RingBuffer_read r ok n))"
proof -
  assume a: "rb_inv r"
  have "buffer (fst (RingBuffer_read r ok n)) = buffer r"
    by (simp add: RingBuffer_read_def Let_def)
  then show ?thesis using a cursors_read [of r ok n] by (simp add: rb_inv_def capacity_read)
qed

lemma rb_inv_new: "0 < cap \<Longrightarrow> rb_inv (RingBuffer_new cap)"
  by (simp add: rb_inv_def cursors_new) (simp add: RingBuffer_new_def)

lemma rb_inv_run: "rb_inv r \<Longrightarrow> list_all rb_call_ok calls \<Longrightarrow> rb_inv (rb_run r calls)"
  unfolding rb_run_def
proof (induction calls arbitrary: r)
  case Nil
  then show ?case by simp
next
  case (Cons c calls)
  have "rb_inv (rb_step r c)"
    using Cons.prems by (cases c) (simp_all add: rb_inv_write rb_inv_read)
  then show ?case using Cons by simp
qed

subsection \<open>A write of more samples than the capacity\<close>

text \<open>
  The call returns the capacity; the array then holds the last \<open>capacity\<close> samples of
  the data, in order from the write cursor; both cursors coincide, so the size is 0.
\<close>

lemma write_overlong:
  assumes inv: "rb_inv r" and n: "capacity r < n" "n \<le> int (length d)"
  shows "snd (RingBuffer_write r (Some d) n) = capacity r \<and>
         writePos (fst (RingBuffer_write r (Some d) n)) = writePos r \<and>
         readPos (fst (RingBuffer_write r (Some d) n)) = writePos r \<and>
         RingBuffer_size (fst (RingBuffer_write r (Some d) n)) = 0 \<and>
         drop (nat (writePos r)) (buffer (fst (RingBuffer_write r (Some d) n)))
           @ take (nat (writePos r)) (buffer (fst (RingBuffer_write r (Some d) n)))
           = subarray d (nat (n - capacity r)) (nat (capacity r))"
proof -
  have c: "cursors_ok r" and len: "int (length (buffer r)) = capacity r"
    using inv by (simp_all add: rb_inv_def)
  have cpos: "0 < capacity r" using c by (simp add: cursors_ok_def)
  let ?d = "drop (nat (n - capacity r)) d"
  let ?r' = "fst (RingBuffer_write r (Some ?d) (capacity r))"
  have tr: "RingBuffer_write r (Some d) n = RingBuffer_write r (Some ?d) (capacity r)"
    using n cpos by (intro write_truncate) simp_all
  define p where "p = nat (writePos r)"
  define cp where "cp = nat (capacity r)"
  have p: "writePos r = int p" "capacity r = int cp"
    using c by (simp_all add: p_def cp_def cursors_ok_def)
  have bnd: "p < cp" "cp \<le> length ?d" "length (buffer r) = cp"
    using c n len unfolding p cursors_ok_def by simp_all
  have weq: "snd (RingBuffer_write r (Some ?d) (capacity r)) = capacity r"
    by (simp add: write_eq [OF c cpos order_refl])
  have wp': "writePos ?r' = writePos r"
    using c by (simp add: write_eq [OF c cpos order_refl] cursors_ok_def)
  have sz': "RingBuffer_size ?r' = 0"
    using size_write_le [OF c cpos order_refl, of ?d] size_bounds [of r] cpos by simp
  have rp': "readPos ?r' = writePos r"
    using size_zero_iff [OF cursors_write [OF c], of "Some ?d" "capacity r"] sz' wp' by simp
  have buf0: "buffer ?r' =
       memcpy (memcpy (buffer r) (nat (writePos r))
                      (subarray ?d 0 (nat (capacity r - writePos r))))
              0 (subarray ?d (nat (capacity r - writePos r))
                   (nat (capacity r - (capacity r - writePos r))))"
    using c by (simp add: write_eq [OF c cpos order_refl] cursors_ok_def)
  have nn: "nat (int cp - (int cp - int p)) = p" "nat (int cp - int p) = cp - p" using bnd by linarith+
  let ?A = "subarray ?d 0 (cp - p)"
  let ?B = "subarray ?d (cp - p) p"
  have buf': "buffer ?r' = memcpy (memcpy (buffer r) p ?A) 0 ?B"
    unfolding buf0 unfolding p by (simp add: nn)
  have lA: "length ?A = cp - p" using bnd by (simp add: subarray_def)
  have lB: "length ?B = p" using bnd by (simp add: subarray_def)
  have m1: "memcpy (buffer r) p ?A = take p (buffer r) @ ?A"
    using bnd lA by (simp add: memcpy_def)
  have m2: "memcpy (take p (buffer r) @ ?A) 0 ?B = ?B @ ?A"
    using bnd lA lB by (simp add: memcpy_def)
  have "drop p (buffer ?r') @ take p (buffer ?r') = ?A @ ?B"
    unfolding buf' m1 m2 using lB by simp
  also have "\<dots> = subarray ?d 0 cp"
    using subarray_append [of ?d 0 "cp - p" p] bnd by simp
  also have "\<dots> = subarray d (nat (n - capacity r)) cp"
    by (simp add: subarray_def)
  finally have buf: "drop p (buffer ?r') @ take p (buffer ?r') = subarray d (nat (n - capacity r)) cp" .
  show ?thesis
    unfolding tr using weq wp' rp' sz' buf by (simp add: p_def cp_def)
qed

text \<open>
  What such a write stores cannot be read: for a capacity of at most \<open>2^30\<close> (so that the
  sum \<^verbatim>\<open>size + len\<close> fits an \<^verbatim>\<open>int\<close>) and a count that is an \<^verbatim>\<open>int\<close>, in every state that
  satisfies the invariant, the call returns the capacity, \<^verbatim>\<open>size()\<close> is 0 afterwards and a
  \<^verbatim>\<open>read\<close> of any count copies nothing and returns 0.
\<close>

lemma overlong_write_unreadable:
  assumes "rb_inv r" and "capacity r \<le> 2 ^ 30" and "capacity r < n" and "n < 2 ^ 31"
    and "n \<le> int (length d)"
  shows "snd (RingBuffer_write r (Some d) n) = capacity r \<and>
         RingBuffer_size (fst (RingBuffer_write r (Some d) n)) = 0 \<and>
         snd (RingBuffer_read (fst (RingBuffer_write r (Some d) n)) non_null k) = ([], 0)"
proof -
  let ?r' = "fst (RingBuffer_write r (Some d) n)"
  have o: "snd (RingBuffer_write r (Some d) n) = capacity r \<and> RingBuffer_size ?r' = 0"
    using write_overlong [OF assms(1,3,5)] by simp
  then have z: "RingBuffer_size ?r' = 0" by simp
  have rd: "snd (RingBuffer_read ?r' non_null k) = ([], 0)"
    using z by (simp add: RingBuffer_read_def RingBuffer_size_def)
  show ?thesis using o rd by simp
qed

section \<open>The ring buffer: the claims\<close>

lemmas rb_eval = rb_run_def RingBuffer_new_def RingBuffer_write_def RingBuffer_read_def
  RingBuffer_size_def memcpy_def subarray_def Let_def

text \<open>
  Claim C1. Writing \<open>n\<close> samples into an empty buffer and reading \<open>n\<close> samples returns
  the samples written, for \<open>0 < n \<le> capacity\<close>. Lemma \<open>write_read_roundtrip\<close> above
  shows this for \<open>n < capacity\<close>. For \<open>n = capacity\<close> the source does not do it: in a
  fresh buffer of capacity 4, \<^verbatim>\<open>write(data, 4)\<close> with the samples 1, 2, 3, 4 returns 4 and
  fills the array, and leaves both cursors at 0; the \<^verbatim>\<open>read\<close> of 4 samples that follows
  finds \<^verbatim>\<open>available == 0\<close>, copies nothing and returns 0.
\<close>

theorem read_after_full_write:
  "RingBuffer_write (RingBuffer_new 4) (Some [1, 2, 3, 4 :: 16 word]) 4 =
     (\<lparr>capacity = 4, readPos = 0, writePos = 0, buffer = [1, 2, 3, 4]\<rparr>, 4) \<and>
   RingBuffer_read \<lparr>capacity = 4, readPos = 0, writePos = 0, buffer = [1, 2, 3, 4 :: 16 word]\<rparr> non_null 4 =
     (\<lparr>capacity = 4, readPos = 0, writePos = 0, buffer = [1, 2, 3, 4]\<rparr>, [], 0)"
  by (simp add: rb_eval)

text \<open>
  Claim C2. After any history of writes and reads on a fresh buffer, \<^verbatim>\<open>size()\<close> is the
  total written minus the total read, kept between 0 and the capacity (\<open>spec_size\<close>).
  Lemmas \<open>size_write\<close> and \<open>size_read\<close> above give what the source computes: a write that
  fills the buffer or overflows it leaves the size 0. In a fresh buffer of capacity 4,
  after one write of 4 samples \<^verbatim>\<open>size()\<close> is 0 where the claim says 4, and after two
  writes of 3 samples \<^verbatim>\<open>size()\<close> is 0 where the claim says 4.
\<close>

theorem size_after_overflow:
  "RingBuffer_size (rb_run (RingBuffer_new 4) [Write [1, 2, 3, 4 :: 16 word] 4]) = 0 \<and>
   spec_size 4 [Write [1, 2, 3, 4 :: 16 word] 4] = 4 \<and>
   RingBuffer_size (rb_run (RingBuffer_new 4) [Write [1, 2, 3 :: 16 word] 3, Write [4, 5, 6] 3]) = 0 \<and>
   spec_size 4 [Write [1, 2, 3 :: 16 word] 3, Write [4, 5, 6] 3] = 4"
  by (simp add: rb_eval spec_size_def)

text \<open>
  Claim C9. A write of \<open>n > capacity\<close> samples returns the capacity, and the content of
  the buffer afterwards is the last \<open>capacity\<close> samples of the data. The source returns the
  capacity and copies these samples into its array (lemma \<open>write_overlong\<close>), but it leaves
  the read cursor on the write cursor, so the buffer is empty for \<^verbatim>\<open>size()\<close> and \<^verbatim>\<open>read\<close>
  (lemma \<open>overlong_write_unreadable\<close>), the only access to its content. In a fresh buffer
  of capacity 4, \<^verbatim>\<open>write(data, 6)\<close> with the samples 1 .. 6 returns 4 and puts 3, 4, 5, 6
  into the array; \<^verbatim>\<open>size()\<close> is then 0 and a \<^verbatim>\<open>read\<close> of 4 samples copies nothing and
  returns 0. The same happens in a buffer that holds the two samples 9, 9 before the
  write.
\<close>

theorem overlong_write_reads_empty:
  "RingBuffer_write (RingBuffer_new 4) (Some [1, 2, 3, 4, 5, 6 :: 16 word]) 6 =
     (\<lparr>capacity = 4, readPos = 0, writePos = 0, buffer = [3, 4, 5, 6]\<rparr>, 4) \<and>
   RingBuffer_size \<lparr>capacity = 4, readPos = 0, writePos = 0, buffer = [3, 4, 5, 6 :: 16 word]\<rparr> = 0 \<and>
   RingBuffer_read \<lparr>capacity = 4, readPos = 0, writePos = 0, buffer = [3, 4, 5, 6 :: 16 word]\<rparr> non_null 4 =
     (\<lparr>capacity = 4, readPos = 0, writePos = 0, buffer = [3, 4, 5, 6]\<rparr>, [], 0) \<and>
   RingBuffer_write \<lparr>capacity = 4, readPos = 0, writePos = 2, buffer = [9, 9, 0, 0]\<rparr>
       (Some [1, 2, 3, 4, 5, 6 :: 16 word]) 6 =
     (\<lparr>capacity = 4, readPos = 2, writePos = 2, buffer = [5, 6, 3, 4]\<rparr>, 4) \<and>
   RingBuffer_size \<lparr>capacity = 4, readPos = 2, writePos = 2, buffer = [5, 6, 3, 4 :: 16 word]\<rparr> = 0 \<and>
   RingBuffer_read \<lparr>capacity = 4, readPos = 2, writePos = 2, buffer = [5, 6, 3, 4 :: 16 word]\<rparr> non_null 4 =
     (\<lparr>capacity = 4, readPos = 2, writePos = 2, buffer = [5, 6, 3, 4]\<rparr>, [], 0)"
  by (simp add: rb_eval)

text \<open>
  Claim C10. In every state \<open>r\<close> that a fresh buffer of capacity \<open>cap > 0\<close> reaches by
  writes and reads, \<^verbatim>\<open>size()\<close> is below the capacity. In particular, when \<open>r\<close> is empty
  and \<^verbatim>\<open>write\<close> is given exactly \<open>cap\<close> samples, the call returns \<open>cap\<close>, the write cursor
  equals the read cursor afterwards, \<^verbatim>\<open>size()\<close> is 0, and a \<^verbatim>\<open>read\<close> of any count \<open>k\<close>
  returns 0 and copies nothing: the samples just written cannot be read.
\<close>

theorem size_below_capacity:
  assumes "0 < cap" and "r = rb_run (RingBuffer_new cap) calls"
  shows "RingBuffer_size r < cap \<and>
    (RingBuffer_size r = 0 \<and> cap \<le> int (length d) \<longrightarrow>
       snd (RingBuffer_write r (Some d) cap) = cap \<and>
       writePos (fst (RingBuffer_write r (Some d) cap)) =
         readPos (fst (RingBuffer_write r (Some d) cap)) \<and>
       RingBuffer_size (fst (RingBuffer_write r (Some d) cap)) = 0 \<and>
       snd (RingBuffer_read (fst (RingBuffer_write r (Some d) cap)) non_null k) = ([], 0))"
proof -
  have cap: "capacity r = cap" using assms(2) by (simp add: capacity_run RingBuffer_new_def)
  have c: "cursors_ok r" using assms by (simp add: cursors_run cursors_new)
  have 1: "RingBuffer_size r < cap" using size_bounds [of r] assms(1) cap by simp
  have 2: "snd (RingBuffer_write r (Some d) cap) = cap \<and>
       writePos (fst (RingBuffer_write r (Some d) cap)) =
         readPos (fst (RingBuffer_write r (Some d) cap)) \<and>
       RingBuffer_size (fst (RingBuffer_write r (Some d) cap)) = 0 \<and>
       snd (RingBuffer_read (fst (RingBuffer_write r (Some d) cap)) non_null k) = ([], 0)"
    if e: "RingBuffer_size r = 0"
  proof -
    let ?r' = "fst (RingBuffer_write r (Some d) cap)"
    have le: "cap \<le> capacity r" using cap by simp
    have s: "snd (RingBuffer_write r (Some d) cap) = cap"
      by (simp add: write_eq [OF c assms(1) le])
    have z: "RingBuffer_size ?r' = 0"
      using size_write_le [OF c assms(1) le, of d] e cap by simp
    have c': "cursors_ok ?r'" using c by (rule cursors_write)
    have w: "writePos ?r' = readPos ?r'" using size_zero_iff [OF c'] z by simp
    have rd: "snd (RingBuffer_read ?r' non_null k) = ([], 0)"
      using z by (simp add: RingBuffer_read_def RingBuffer_size_def)
    show ?thesis using s z w rd by simp
  qed
  show ?thesis using 1 2 by simp
qed

theorem size_below_capacity_witness:
  "RingBuffer_size (rb_run (RingBuffer_new 4) [Write [7, 8 :: 16 word] 2, Read 2]) = 0 \<and>
   snd (RingBuffer_write (rb_run (RingBuffer_new 4) [Write [7, 8 :: 16 word] 2, Read 2])
          (Some [1, 2, 3, 4]) 4) = 4 \<and>
   snd (RingBuffer_read
          (fst (RingBuffer_write (rb_run (RingBuffer_new 4) [Write [7, 8 :: 16 word] 2, Read 2])
                  (Some [1, 2, 3, 4]) 4)) non_null 4) = ([], 0)"
proof -
  have e: "RingBuffer_size (rb_run (RingBuffer_new 4) [Write [7, 8 :: 16 word] 2, Read 2]) = 0"
    by (simp add: rb_eval)
  show ?thesis
    using e size_below_capacity [of 4 "rb_run (RingBuffer_new 4) [Write [7, 8 :: 16 word] 2, Read 2]"
        "[Write [7, 8] 2, Read 2]" "[1, 2, 3, 4]" 4]
    by simp
qed

section \<open>Facts about the streamer\<close>

subsection \<open>The callbacks leave the state alone\<close>

text \<open>
  Only the constructor, \<^verbatim>\<open>start\<close>, \<^verbatim>\<open>stop\<close> and \<^verbatim>\<open>submitTransferRequests\<close> assign
  \<^verbatim>\<open>state_\<close>: neither callback does, so the render callbacks that run while \<^verbatim>\<open>stop\<close>
  waits do not change it.
\<close>

lemma state_iso_packet_loop: "state (fst (iso_packet_loop now i packs s len)) = state s"
  by (induction now i packs s len rule: iso_packet_loop.induct)
     (simp_all add: Let_def split: prod.split)

lemma transfers_iso_packet_loop: "transfers (fst (iso_packet_loop now i packs s len)) = transfers s"
  by (induction now i packs s len rule: iso_packet_loop.induct)
     (simp_all add: Let_def split: prod.split)

lemma state_transferCallback: "state (transferCallback a tr s) = state s"
  unfolding transferCallback_def
  by (simp add: Let_def case_prod_beta state_iso_packet_loop split: option.split)

lemma state_handle_events: "state (handle_events completed s) = state s"
  unfolding handle_events_def
  by (induction completed arbitrary: s) (simp_all add: state_transferCallback split: prod.split)

lemma state_at_size_check: "state (at_size_check completed s) = state s"
  by (simp add: at_size_check_def Let_def state_handle_events)

lemma audioPlaybackCallback_eq:
  "audioPlaybackCallback completed s audioData numFrames =
     (if RingBuffer_size (ringBuffer (at_size_check completed s))
           < size_t_of (int32 (uint (channelCount s) * numFrames))
      then (at_size_check completed s,
            memcpy audioData 0 (replicate (nat (bytesInAudioFrames s numFrames)) 0),
            AAUDIO_CALLBACK_RESULT_CONTINUE)
      else ((at_size_check completed s)
              \<lparr>ringBuffer := fst (RingBuffer_read (ringBuffer (at_size_check completed s)) non_null
                                   (int32 (uint (channelCount s) * numFrames)))\<rparr>,
            memcpy audioData 0
              (bytes_of_samples (fst (snd (RingBuffer_read (ringBuffer (at_size_check completed s))
                 non_null (int32 (uint (channelCount s) * numFrames)))))),
            AAUDIO_CALLBACK_RESULT_CONTINUE))"
  by (simp add: audioPlaybackCallback_def at_size_check_def Let_def split: prod.split)

lemma state_audioPlaybackCallback:
  "state (fst (audioPlaybackCallback completed s audioData numFrames)) = state s"
  by (simp add: audioPlaybackCallback_eq state_at_size_check)

lemma state_render: "state (render s c) = state s"
  by (simp add: render_def state_audioPlaybackCallback)

lemma state_foldl_render: "state (foldl render s cs) = state s"
  by (induction cs arbitrary: s) (simp_all add: state_render)

lemma state_stop_wait: "state (fst (stop_wait waits tries s)) = state s"
proof (induction waits tries s rule: stop_wait.induct)
  case (1 waits tries s)
  show ?case
  proof (cases "hasActiveTransfers s \<and> tries < 5")
    case True
    then have "stop_wait waits tries s = stop_wait waits (tries + 1) (foldl render s (waits tries))"
      by (subst stop_wait.simps) simp
    then show ?thesis using 1 True by (simp add: state_foldl_render)
  next
    case False
    then have "stop_wait waits tries s = (if hasActiveTransfers s then (s, tries + 1) else (s, tries))"
      by (subst stop_wait.simps) auto
    then show ?thesis by simp
  qed
qed


subsection \<open>Submission\<close>

text \<open>
  \<^verbatim>\<open>submitTransferRequests\<close> succeeds exactly when libusb accepts at least one slot, and
  otherwise sets the state to \<open>ERROR\<close>.
\<close>

lemma length_submit_loop: "length (submit_loop submit i ts) = length ts"
  by (induction ts arbitrary: i) simp_all



subsection \<open>The sizing arithmetic\<close>

text \<open>
  For a positive divisor, \<open>(b + m - 1) / m\<close> is the ceiling of \<open>b / m\<close> when the numerator
  is not negative; when it is negative both are at most 0 and the floor at 2 decides.
\<close>

lemma int32_id: "- (2 ^ 31) \<le> x \<Longrightarrow> x < 2 ^ 31 \<Longrightarrow> int32 x = x"
  by (simp add: int32_def)

lemma int32_range: "- (2 ^ 31) \<le> int32 x" "int32 x < 2 ^ 31"
  by (simp_all add: int32_def)

lemma cdiv_nonneg: "0 \<le> a \<Longrightarrow> 0 < b \<Longrightarrow> cdiv a b = a div b"
  by (cases "a = 0") (simp_all add: cdiv_def)

lemma cdiv_neg_le: "a < 0 \<Longrightarrow> 0 < b \<Longrightarrow> cdiv a b \<le> 0"
proof -
  assume "a < 0" "0 < b"
  then have "0 \<le> \<bar>a\<bar> div \<bar>b\<bar>" by (simp add: pos_imp_zdiv_nonneg_iff)
  then show ?thesis using \<open>a < 0\<close> \<open>0 < b\<close> by (simp add: cdiv_def)
qed

lemma ceiling_div:
  assumes "0 < (m::int)"
  shows "\<lceil>real_of_int b / real_of_int m\<rceil> = (b + m - 1) div m"
proof (rule ceiling_unique)
  define z where "z = (b + m - 1) div m"
  have d: "z * m + (b + m - 1) mod m = b + m - 1"
    unfolding z_def by (rule div_mult_mod_eq)
  have r: "0 \<le> (b + m - 1) mod m" "(b + m - 1) mod m < m"
    using assms by simp_all
  have lo: "(z - 1) * m < b" using d r by (simp add: algebra_simps)
  have hi: "b \<le> z * m" using d r by (simp add: algebra_simps)
  have "real_of_int ((z - 1) * m) < real_of_int b" using lo by (simp only: of_int_less_iff)
  then have "(real_of_int z - 1) * real_of_int m < real_of_int b" by simp
  then show "real_of_int ((b + m - 1) div m) - 1 < real_of_int b / real_of_int m"
    using assms by (simp add: pos_less_divide_eq z_def)
  have "real_of_int b \<le> real_of_int (z * m)" using hi by (simp only: of_int_le_iff)
  then have "real_of_int b \<le> real_of_int z * real_of_int m" by simp
  then show "real_of_int b / real_of_int m \<le> real_of_int ((b + m - 1) div m)"
    using assms by (simp add: pos_divide_le_eq z_def)
qed

lemma max2_ceiling:
  assumes "0 < (m::int)"
  shows "max 2 (cdiv (b + m - 1) m) = max 2 \<lceil>real_of_int b / real_of_int m\<rceil>"
proof (cases "0 \<le> b + m - 1")
  case True
  then show ?thesis using assms by (simp add: cdiv_nonneg ceiling_div)
next
  case False
  then have 1: "cdiv (b + m - 1) m \<le> 0" using assms by (intro cdiv_neg_le) simp_all
  have "(b + m - 1) div m < 0" using False assms
    by (intro div_neg_pos_less0) simp_all
  then have 2: "\<lceil>real_of_int b / real_of_int m\<rceil> \<le> 0" using assms by (simp only: ceiling_div)
  show ?thesis using 1 2 by simp
qed

subsection \<open>Allocation and construction\<close>

lemma length_alloc_loop:
  "length (alloc_loop alloc is ts) = length ts + length (filter (\<lambda>i. alloc i \<noteq> None) is)"
  by (induction "is" arbitrary: ts) (simp_all split: option.split)

lemma capacity_allocateTransferRequests:
  "capacity (ringBuffer (allocateTransferRequests a s)) =
     ring_buffer_capacity
       (sizing (uint (maxPacketSize s)) (getFramesPerBurst a) (getBufferCapacityInFrames a)
          (uint (subFrameSize s)) (uint (channelCount s)))"
  by (simp add: allocateTransferRequests_def Let_def RingBuffer_new_def)

lemma length_transfers_allocateTransferRequests:
  "length (transfers (allocateTransferRequests a s)) =
     length (transfers s) +
     length (filter (\<lambda>i. alloc_transfer a i \<noteq> None)
       [0 ..< nat (num_transfers
          (sizing (uint (maxPacketSize s)) (getFramesPerBurst a) (getBufferCapacityInFrames a)
             (uint (subFrameSize s)) (uint (channelCount s))))])"
  by (simp add: allocateTransferRequests_def Let_def length_alloc_loop)

lemma transfers_resolveAudioInterface:
  "transfers (fst (resolveAudioInterface u s)) = transfers s"
  "state (fst (resolveAudioInterface u s)) = state s"
  by (simp_all add: resolveAudioInterface_def Let_def split: option.split prod.split)

lemma constructor_ready_or_empty:
  "state (UsbAudioStreamer_new n) \<noteq> READY_TO_START \<Longrightarrow> transfers (UsbAudioStreamer_new n) = []"
  by (auto simp: UsbAudioStreamer_new_def Let_def case_prod_beta transfers_resolveAudioInterface
       initial_streamer_def split: if_splits)

text \<open>
  The state after construction: \<open>INITIAL\<close> exactly when the log-level option, the wrapping
  of the device or the reading of the configuration descriptor fails; \<open>ERROR\<close> exactly
  when these succeed and the stream builder or the interface resolution fails.
\<close>

lemma constructor_initial_iff:
  "state (UsbAudioStreamer_new n) = INITIAL \<longleftrightarrow>
     \<not> set_option_log_level_ok n \<or> \<not> wrap_sys_device_ok n
     \<or> \<not> get_active_config_descriptor_ok n"
  by (auto simp: UsbAudioStreamer_new_def Let_def case_prod_beta transfers_resolveAudioInterface
       initial_streamer_def split: if_splits)

lemma constructor_error_iff:
  "state (UsbAudioStreamer_new n) = ERROR \<longleftrightarrow>
     set_option_log_level_ok n \<and> wrap_sys_device_ok n \<and> get_active_config_descriptor_ok n \<and>
     (\<not> createStreamBuilder_ok n \<or>
      \<not> snd (resolveAudioInterface (usb n)
         ((initial_streamer n)
            \<lparr>deviceHandle := True, config := Some (active_config_descriptor n),
             audioStreamBuilder := True, audioStream := openStream_ok n,
             framesPerBurst := getFramesPerBurst (stream n),
             bufferCapacityInFrames := getBufferCapacityInFrames (stream n)\<rparr>)))"
  by (auto simp: UsbAudioStreamer_new_def Let_def case_prod_beta transfers_resolveAudioInterface
       initial_streamer_def split: if_splits)

subsection \<open>The sample inputs, evaluated\<close>

lemmas streamer_eval = sample_streamer_def initial_streamer_def sample_negotiation_def
  sample_callback_answers_def sample_transfer_def RingBuffer_new_def



lemma sizing_sample:
  "sizing 192 192 960 2 2 =
     \<lparr>bytes_per_burst = 768, num_packets = 4, buffer_size = 768, num_transfers = 5,
      ring_buffer_capacity = 1920\<rparr>"
  unfolding sizing_def Let_def by (simp add: int32_def cdiv_def)

text \<open>
  Outside the range of \<^verbatim>\<open>int\<close> the sums wrap: with a buffer capacity of \<open>2^31 - 1\<close> frames
  the sum \<^verbatim>\<open>bufferCapacityInFrames_ + framesPerBurst_\<close> is negative, and the floor of 2
  transfers applies.
\<close>

lemma sizing_wrapped_sample:
  "sizing 192 192 2147483647 2 2 =
     \<lparr>bytes_per_burst = 768, num_packets = 4, buffer_size = 768, num_transfers = 2,
      ring_buffer_capacity = 768\<rparr>"
  unfolding sizing_def Let_def by (simp add: int32_def cdiv_def)





section \<open>The streamer: the claims\<close>

text \<open>
  Claim C3. When a negotiation step of the constructor fails (context init, wrapping the
  device, reading the configuration descriptor, opening the audio output stream,
  resolving the interface), the object is left in \<open>ERROR\<close> with an empty transfer pool.
  The pool is empty whenever the object is not \<open>READY_TO_START\<close> (lemma
  \<open>constructor_ready_or_empty\<close>), and the failures of the stream builder and of the
  interface resolution end in \<open>ERROR\<close> (lemma \<open>constructor_error_iff\<close>). The other steps
  do not: when \<^verbatim>\<open>libusb_wrap_sys_device\<close> or \<^verbatim>\<open>libusb_get_active_config_descriptor\<close>
  fails the constructor returns with the state still \<open>INITIAL\<close> (lemma
  \<open>constructor_initial_iff\<close>), and when only \<^verbatim>\<open>AAudioStreamBuilder_openStream\<close> fails it
  allocates the five transfers and ends in \<open>READY_TO_START\<close>.
\<close>

theorem construction_failures:
  "state (UsbAudioStreamer_new (sample_negotiation\<lparr>wrap_sys_device_ok := False\<rparr>)) = INITIAL \<and>
   transfers (UsbAudioStreamer_new (sample_negotiation\<lparr>wrap_sys_device_ok := False\<rparr>)) = [] \<and>
   state (UsbAudioStreamer_new (sample_negotiation\<lparr>get_active_config_descriptor_ok := False\<rparr>)) = INITIAL \<and>
   state (UsbAudioStreamer_new (sample_negotiation\<lparr>openStream_ok := False\<rparr>)) = READY_TO_START \<and>
   length (transfers (UsbAudioStreamer_new (sample_negotiation\<lparr>openStream_ok := False\<rparr>))) = 5"
  by (simp add: UsbAudioStreamer_new_def initial_streamer_def sample_negotiation_def
  resolveAudioInterface_def allocateTransferRequests_def sizing_sample RingBuffer_new_def
  Let_def upt_rec)

text \<open>
  Claim C4. For \<open>maxPacketSize = 192\<close>, \<open>framesPerBurst = 192\<close>,
  \<open>bufferCapacityInFrames = 960\<close>, \<open>subFrameSize = 2\<close> and \<open>channelCount = 2\<close> the sizing of
  \<^verbatim>\<open>allocateTransferRequests\<close> gives 768 bytes per burst, 4 packets, a buffer of 768 bytes,
  5 transfers and a ring buffer of 1920 samples; \<^verbatim>\<open>allocateTransferRequests\<close> then leaves
  a ring buffer of capacity 1920 and appends at most 5 slots, exactly 5 when libusb
  allocates every transfer. In general, for a positive packet size, burst and sample size
  and as long as the 32-bit arithmetic stays in range (bytes per burst plus the packet
  size, the buffer capacity plus the burst, and buffer size times number of transfers are
  all below \<open>2^31\<close>), the number of packets is the ceiling of bytes per burst over the packet
  size, at least 2; the number of transfers is the ceiling of the buffer capacity over
  the burst, at least 2; and the ring capacity is buffer size times number of transfers
  divided by the sample size.
\<close>

theorem pool_sizing:
  "sizing 192 192 960 2 2 =
     \<lparr>bytes_per_burst = 768, num_packets = 4, buffer_size = 768, num_transfers = 5,
      ring_buffer_capacity = 1920\<rparr> \<and>
   (maxPacketSize s = 192 \<and> subFrameSize s = 2 \<and> channelCount s = 2 \<and>
    getFramesPerBurst a = 192 \<and> getBufferCapacityInFrames a = 960 \<longrightarrow>
      capacity (ringBuffer (allocateTransferRequests a s)) = 1920 \<and>
      length (transfers (allocateTransferRequests a s)) \<le> length (transfers s) + 5 \<and>
      ((\<forall>i < 5. alloc_transfer a i \<noteq> None) \<longrightarrow>
         length (transfers (allocateTransferRequests a s)) = length (transfers s) + 5)) \<and>
   (0 < mps \<and> 0 < fpb \<and> 0 < sfs \<and> 0 \<le> cc \<and> - (2 ^ 31) \<le> cap \<and>
    fpb * sfs * cc + mps < 2 ^ 31 \<and> cap + fpb < 2 ^ 31 \<and>
    mps * max 2 \<lceil>real_of_int (fpb * sfs * cc) / real_of_int mps\<rceil>
        * max 2 \<lceil>real_of_int cap / real_of_int fpb\<rceil> < 2 ^ 31 \<longrightarrow>
      bytes_per_burst (sizing mps fpb cap sfs cc) = fpb * sfs * cc \<and>
      num_packets (sizing mps fpb cap sfs cc) =
        max 2 \<lceil>real_of_int (fpb * sfs * cc) / real_of_int mps\<rceil> \<and>
      buffer_size (sizing mps fpb cap sfs cc) = mps * num_packets (sizing mps fpb cap sfs cc) \<and>
      num_transfers (sizing mps fpb cap sfs cc) =
        max 2 \<lceil>real_of_int cap / real_of_int fpb\<rceil> \<and>
      ring_buffer_capacity (sizing mps fpb cap sfs cc) =
        buffer_size (sizing mps fpb cap sfs cc) * num_transfers (sizing mps fpb cap sfs cc) div sfs)"
proof -
  have c: "sizing 192 192 960 2 2 =
     \<lparr>bytes_per_burst = 768, num_packets = 4, buffer_size = 768, num_transfers = 5,
      ring_buffer_capacity = 1920\<rparr>"
    by (rule sizing_sample)
  have al: "capacity (ringBuffer (allocateTransferRequests a s)) = 1920 \<and>
      length (transfers (allocateTransferRequests a s)) \<le> length (transfers s) + 5 \<and>
      ((\<forall>i < 5. alloc_transfer a i \<noteq> None) \<longrightarrow>
         length (transfers (allocateTransferRequests a s)) = length (transfers s) + 5)"
    if h: "maxPacketSize s = 192" "subFrameSize s = 2" "channelCount s = 2"
      "getFramesPerBurst a = 192" "getBufferCapacityInFrames a = 960"
  proof -
    have z: "sizing (uint (maxPacketSize s)) (getFramesPerBurst a) (getBufferCapacityInFrames a)
          (uint (subFrameSize s)) (uint (channelCount s)) = sizing 192 192 960 2 2"
      by (simp add: h)
    have 1: "capacity (ringBuffer (allocateTransferRequests a s)) = 1920"
      unfolding capacity_allocateTransferRequests z c by simp
    have l: "length (transfers (allocateTransferRequests a s)) =
        length (transfers s) + length (filter (\<lambda>i. alloc_transfer a i \<noteq> None) [0 ..< 5])"
      unfolding length_transfers_allocateTransferRequests z c by simp
    have "length (filter (\<lambda>i. alloc_transfer a i \<noteq> None) [0 ..< 5]) \<le> length [0 ..< (5::nat)]"
      by (rule length_filter_le)
    then have 2: "length (transfers (allocateTransferRequests a s)) \<le> length (transfers s) + 5"
      unfolding l by simp
    have 3: "length (transfers (allocateTransferRequests a s)) = length (transfers s) + 5"
      if "\<forall>i < 5. alloc_transfer a i \<noteq> None"
    proof -
      have "filter (\<lambda>i. alloc_transfer a i \<noteq> None) [0 ..< 5] = [0 ..< 5]"
        using that by (intro filter_True) simp
      then show ?thesis unfolding l by simp
    qed
    show ?thesis using 1 2 3 by blast
  qed
  have g: "bytes_per_burst (sizing mps fpb cap sfs cc) = fpb * sfs * cc \<and>
      num_packets (sizing mps fpb cap sfs cc) =
        max 2 \<lceil>real_of_int (fpb * sfs * cc) / real_of_int mps\<rceil> \<and>
      buffer_size (sizing mps fpb cap sfs cc) = mps * num_packets (sizing mps fpb cap sfs cc) \<and>
      num_transfers (sizing mps fpb cap sfs cc) =
        max 2 \<lceil>real_of_int cap / real_of_int fpb\<rceil> \<and>
      ring_buffer_capacity (sizing mps fpb cap sfs cc) =
        buffer_size (sizing mps fpb cap sfs cc) * num_transfers (sizing mps fpb cap sfs cc) div sfs"
    if h: "0 < mps" "0 < fpb" "0 < sfs" "0 \<le> cc" "- (2 ^ 31) \<le> cap"
      "fpb * sfs * cc + mps < 2 ^ 31" "cap + fpb < 2 ^ 31"
      "mps * max 2 \<lceil>real_of_int (fpb * sfs * cc) / real_of_int mps\<rceil>
         * max 2 \<lceil>real_of_int cap / real_of_int fpb\<rceil> < 2 ^ 31"
  proof -
    define b where "b = fpb * sfs * cc"
    define np where "np = max 2 \<lceil>real_of_int b / real_of_int mps\<rceil>"
    define nt where "nt = max 2 \<lceil>real_of_int cap / real_of_int fpb\<rceil>"
    have fs: "0 < fpb * sfs" using h(2,3) by simp
    have b0: "0 \<le> b" unfolding b_def using fs h(4) by simp
    have b1: "b + mps < 2 ^ 31" unfolding b_def by (rule h(6))
    have i1: "int32 (int32 (fpb * sfs) * cc) = b"
    proof (cases "cc = 0")
      case True
      then show ?thesis by (simp add: b_def int32_def)
    next
      case False
      then have "1 \<le> cc" using h(4) by simp
      then have "fpb * sfs * 1 \<le> fpb * sfs * cc" using fs by (intro mult_left_mono) simp_all
      then have "fpb * sfs \<le> b" by (simp add: b_def)
      then have "int32 (fpb * sfs) = fpb * sfs" using fs b1 h(1) by (intro int32_id) simp_all
      moreover have "int32 b = b" using b0 b1 h(1) by (intro int32_id) simp_all
      ultimately show ?thesis by (simp add: b_def)
    qed
    have i2: "int32 (int32 (b + mps) - 1) = b + mps - 1"
    proof -
      have "int32 (b + mps) = b + mps" using b0 b1 h(1) by (intro int32_id) simp_all
      moreover have "int32 (b + mps - 1) = b + mps - 1" using b0 b1 h(1) by (intro int32_id) simp_all
      ultimately show ?thesis by simp
    qed
    have i3: "int32 (int32 (cap + fpb) - 1) = cap + fpb - 1"
    proof -
      have "int32 (cap + fpb) = cap + fpb" using h(2,5,7) by (intro int32_id) simp_all
      moreover have "int32 (cap + fpb - 1) = cap + fpb - 1" using h(2,5,7) by (intro int32_id) simp_all
      ultimately show ?thesis by simp
    qed
    have np2: "2 \<le> np" unfolding np_def by simp
    have nt2: "2 \<le> nt" unfolding nt_def by simp
    have p0: "0 \<le> mps * np" using h(1) np2 by simp
    have p1: "mps * np * nt < 2 ^ 31" using h(8) unfolding np_def nt_def b_def .
    have "mps * np * 1 \<le> mps * np * nt" using p0 nt2 by (intro mult_left_mono) simp_all
    then have p2: "mps * np < 2 ^ 31" using p1 by simp
    have p3: "0 \<le> mps * np * nt" using p0 nt2 by simp
    have i4: "int32 (mps * np) = mps * np" using p0 p2 by (intro int32_id) simp_all
    have i5: "int32 (mps * np * nt) = mps * np * nt" using p3 p1 by (intro int32_id) simp_all
    have cnp: "max 2 (cdiv (b + mps - 1) mps) = np"
      unfolding np_def by (rule max2_ceiling [OF h(1)])
    have cnt: "max 2 (cdiv (cap + fpb - 1) fpb) = nt"
      unfolding nt_def by (rule max2_ceiling [OF h(2)])
    have bb: "bytes_per_burst (sizing mps fpb cap sfs cc) = b"
      by (simp add: sizing_def Let_def i1)
    have npe: "num_packets (sizing mps fpb cap sfs cc) = np"
      by (simp only: sizing_def Let_def transfer_sizing.simps i1 i2 cnp)
    have nte: "num_transfers (sizing mps fpb cap sfs cc) = nt"
      by (simp only: sizing_def Let_def transfer_sizing.simps i3 cnt)
    have bs: "buffer_size (sizing mps fpb cap sfs cc) = mps * np"
      by (simp only: sizing_def Let_def transfer_sizing.simps i1 i2 cnp i4)
    have rc: "ring_buffer_capacity (sizing mps fpb cap sfs cc) = cdiv (mps * np * nt) sfs"
      by (simp only: sizing_def Let_def transfer_sizing.simps i1 i2 cnp i4 i3 cnt i5)
    have rc': "ring_buffer_capacity (sizing mps fpb cap sfs cc) = mps * np * nt div sfs"
      unfolding rc by (rule cdiv_nonneg [OF p3 h(3)])
    show ?thesis
      unfolding bb npe nte bs rc' by (simp add: b_def np_def nt_def)
  qed
  show ?thesis using c al g by blast
qed

theorem pool_sizing_witness:
  "capacity (ringBuffer (allocateTransferRequests (stream sample_negotiation)
      (sample_streamer INITIAL))) = 1920 \<and>
   length (transfers (allocateTransferRequests (stream sample_negotiation)
      (sample_streamer INITIAL))) = 7 \<and>
   bytes_per_burst (sizing 100 48 480 2 2) = 192 \<and>
   num_packets (sizing 100 48 480 2 2) = 2 \<and> buffer_size (sizing 100 48 480 2 2) = 200 \<and>
   num_transfers (sizing 100 48 480 2 2) = 10 \<and>
   ring_buffer_capacity (sizing 100 48 480 2 2) = 1000"
proof -
  have h: "maxPacketSize (sample_streamer INITIAL) = 192 \<and> subFrameSize (sample_streamer INITIAL) = 2 \<and>
      channelCount (sample_streamer INITIAL) = 2 \<and>
      getFramesPerBurst (stream sample_negotiation) = 192 \<and>
      getBufferCapacityInFrames (stream sample_negotiation) = 960"
    by (simp add: streamer_eval)
  have al: "\<forall>i < 5. alloc_transfer (stream sample_negotiation) i \<noteq> None"
    by (simp add: sample_negotiation_def)
  have l: "length (transfers (sample_streamer INITIAL)) = 2"
    by (simp add: sample_streamer_def)
  have c1: "\<lceil>real_of_int (48 * 2 * 2) / real_of_int 100\<rceil> = (2::int)"
    by (simp add: ceiling_divide_eq_div_numeral)
  have c2: "\<lceil>real_of_int 480 / real_of_int 48\<rceil> = (10::int)"
    by simp
  have r: "(0::int) < 100 \<and> (0::int) < 48 \<and> (0::int) < 2 \<and> (0::int) \<le> 2 \<and>
      - (2 ^ 31) \<le> (480::int) \<and> (48::int) * 2 * 2 + 100 < 2 ^ 31 \<and> (480::int) + 48 < 2 ^ 31 \<and>
      (100::int) * max 2 \<lceil>real_of_int (48 * 2 * 2) / real_of_int 100\<rceil>
        * max 2 \<lceil>real_of_int 480 / real_of_int 48\<rceil> < 2 ^ 31"
    unfolding c1 c2 by simp
  show ?thesis
    using pool_sizing [of "sample_streamer INITIAL" "stream sample_negotiation" 100 48 2 2 480] h al l r
    unfolding c1 c2 by simp
qed





text \<open>
  Claim C7. A completion callback for a transfer with status \<open>NO_DEVICE\<close> marks the
  slot of the transfer not in flight and does nothing else: the ring buffer, the
  statistics, the list of submissions and the state are as before.
\<close>

theorem no_device_callback:
  assumes "status t = LIBUSB_TRANSFER_NO_DEVICE"
  shows "(user_data t = Some slot \<longrightarrow>
            transferCallback a (Some t) s = s\<lparr>transfers := set_isSubmitted slot False (transfers s)\<rparr> \<and>
            (slot < length (transfers s) \<longrightarrow>
               \<not> isSubmitted (transfers (transferCallback a (Some t) s) ! slot))) \<and>
         ringBuffer (transferCallback a (Some t) s) = ringBuffer s \<and>
         streamerStats (transferCallback a (Some t) s) = streamerStats s \<and>
         submit_log (transferCallback a (Some t) s) = submit_log s \<and>
         state (transferCallback a (Some t) s) = state s"
  using assms
  by (simp add: transferCallback_def set_isSubmitted_def split: option.split)

theorem no_device_callback_witness:
  "transferCallback (sample_callback_answers LIBUSB_SUCCESS)
     (Some (sample_transfer LIBUSB_TRANSFER_NO_DEVICE)) (sample_streamer STARTED) =
   (sample_streamer STARTED)
     \<lparr>transfers := [\<lparr>transfer = 0, isSubmitted = False\<rparr>, \<lparr>transfer = 1, isSubmitted = False\<rparr>]\<rparr> \<and>
   \<not> isSubmitted (transfers (transferCallback (sample_callback_answers LIBUSB_SUCCESS)
     (Some (sample_transfer LIBUSB_TRANSFER_NO_DEVICE)) (sample_streamer STARTED)) ! 0)"
  using no_device_callback [of "sample_transfer LIBUSB_TRANSFER_NO_DEVICE" 0
      "sample_callback_answers LIBUSB_SUCCESS" "sample_streamer STARTED"]
  by (simp add: streamer_eval set_isSubmitted_def)



end
